theory Spec2Isabelle
  imports Main "HOL-Library.Word"
begin

section \<open>The email service of reply-gennie (src/email/email.service.ts)\<close>

text \<open>
  The service polls a mailbox for unread messages, and for each one classifies it, applies
  a label, sends a generated reply and marks the message read. Every step talks to a
  collaborator: the Gmail client, the Bull queue, the injected classifier service and the
  Nest logger. The embedding below keeps the TypeScript names. A collaborator call is an
  oracle that may answer or throw; what the service does to its collaborators is recorded,
  in order, in a list of events.
\<close>

subsection \<open>Strings, bytes and JavaScript values\<close>

text \<open>
  A JavaScript string is a sequence of UTF-16 code units; a \<^verbatim>\<open>Buffer\<close> is a sequence of
  bytes. \<open>lit\<close> turns an ASCII literal of the source into code units.
\<close>

type_synonym code_unit = "16 word"
type_synonym js_string = "code_unit list"
type_synonym byte = "8 word"

definition lit :: "string \<Rightarrow> js_string" where
  "lit s = map of_char s"

text \<open>
  The values that reach the dynamically typed places of the service: \<open>undefined\<close>,
  \<open>null\<close>, a string, a built-in function (by its name) and the object
  \<^verbatim>\<open>Object.prototype\<close>.
\<close>

datatype js_value = JUndefined | JNull | JString js_string | JFunction js_string | JObjectPrototype

fun truthy :: "js_value \<Rightarrow> bool" where
  "truthy JUndefined = False"
| "truthy JNull = False"
| "truthy (JString s) = (s \<noteq> [])"
| "truthy (JFunction n) = True"
| "truthy JObjectPrototype = True"

text \<open>\<^verbatim>\<open>`${v}`\<close>: the string conversion of a template literal.\<close>

fun template :: "js_value \<Rightarrow> js_string" where
  "template JUndefined = lit ''undefined''"
| "template JNull = lit ''null''"
| "template (JString s) = s"
| "template (JFunction n) = lit ''function '' @ n @ lit ''() { [native code] }''"
| "template JObjectPrototype = lit ''[object Object]''"

text \<open>An optional string of the provider's data: \<open>None\<close> is \<open>undefined\<close>.\<close>

definition optional :: "js_string option \<Rightarrow> js_value" where
  "optional v = (case v of None \<Rightarrow> JUndefined | Some s \<Rightarrow> JString s)"

text \<open>\<^verbatim>\<open>v || d\<close> on an optional string: the empty string is falsy too.\<close>

definition or_else :: "js_string option \<Rightarrow> js_string \<Rightarrow> js_string" where
  "or_else v d = (case v of None \<Rightarrow> d | Some s \<Rightarrow> if s = [] then d else s)"

text \<open>What a collaborator throws: an \<^verbatim>\<open>Error\<close> object, read through \<^verbatim>\<open>error.message\<close>.\<close>

datatype js_error = Error (message: js_string) | TypeError (message: js_string)

subsection \<open>\<^verbatim>\<open>Buffer.from(message).toString('base64')\<close>\<close>

text \<open>
  \<^verbatim>\<open>Buffer.from(string)\<close> encodes the string as UTF-8: a surrogate pair is one code point
  of four bytes, and a surrogate without its partner becomes U+FFFD.
\<close>

definition utf8_bytes :: "nat \<Rightarrow> byte list" where
  "utf8_bytes cp =
     (if cp < 0x80 then [of_nat cp]
      else if cp < 0x800 then [of_nat (0xC0 + cp div 64), of_nat (0x80 + cp mod 64)]
      else if cp < 0x10000 then
        [of_nat (0xE0 + cp div 4096), of_nat (0x80 + cp div 64 mod 64), of_nat (0x80 + cp mod 64)]
      else
        [of_nat (0xF0 + cp div 262144), of_nat (0x80 + cp div 4096 mod 64),
         of_nat (0x80 + cp div 64 mod 64), of_nat (0x80 + cp mod 64)])"

definition is_high_surrogate :: "code_unit \<Rightarrow> bool" where
  "is_high_surrogate u = (0xD800 \<le> u \<and> u \<le> 0xDBFF)"

definition is_low_surrogate :: "code_unit \<Rightarrow> bool" where
  "is_low_surrogate u = (0xDC00 \<le> u \<and> u \<le> 0xDFFF)"

definition surrogate_pair :: "code_unit \<Rightarrow> code_unit \<Rightarrow> nat" where
  "surrogate_pair h l = 0x10000 + (unat h - 0xD800) * 0x400 + (unat l - 0xDC00)"

definition replacement_character :: "byte list" where
  "replacement_character = [0xEF, 0xBF, 0xBD]"

fun Buffer_from :: "js_string \<Rightarrow> byte list" where
  "Buffer_from [] = []"
| "Buffer_from [u] =
     (if is_high_surrogate u \<or> is_low_surrogate u then replacement_character
      else utf8_bytes (unat u))"
| "Buffer_from (u # v # rest) =
     (if is_high_surrogate u then
        (if is_low_surrogate v then utf8_bytes (surrogate_pair u v) @ Buffer_from rest
         else replacement_character @ Buffer_from (v # rest))
      else if is_low_surrogate u then replacement_character @ Buffer_from (v # rest)
      else utf8_bytes (unat u) @ Buffer_from (v # rest))"

text \<open>
  \<^verbatim>\<open>buffer.toString('base64')\<close>: three bytes give four characters of the standard
  alphabet; one or two bytes left over are padded with \<^verbatim>\<open>=\<close>.
\<close>

definition base64_alphabet :: js_string where
  "base64_alphabet = lit ''ABCDEFGHIJKLMNOPQRSTUVWXYZabcdefghijklmnopqrstuvwxyz0123456789+/''"

definition base64_char :: "nat \<Rightarrow> code_unit" where
  "base64_char n = base64_alphabet ! n"

definition pad_char :: code_unit where
  "pad_char = 0x3D"

fun toString_base64 :: "byte list \<Rightarrow> js_string" where
  "toString_base64 [] = []"
| "toString_base64 [a] =
     [base64_char (unat a div 4), base64_char (unat a mod 4 * 16), pad_char, pad_char]"
| "toString_base64 [a, b] =
     [base64_char (unat a div 4), base64_char (unat a mod 4 * 16 + unat b div 16),
      base64_char (unat b mod 16 * 4), pad_char]"
| "toString_base64 (a # b # c # rest) =
     [base64_char (unat a div 4), base64_char (unat a mod 4 * 16 + unat b div 16),
      base64_char (unat b mod 16 * 4 + unat c div 64), base64_char (unat c mod 64)]
     @ toString_base64 rest"

text \<open>
  \<^verbatim>\<open>s.replace(/c/g, d)\<close> for one character, and \<^verbatim>\<open>s.replace(/c+$/, '')\<close>: the regular
  expression matches the longest run of \<open>c\<close> that ends the string.
\<close>

definition replace_all :: "code_unit \<Rightarrow> code_unit \<Rightarrow> js_string \<Rightarrow> js_string" where
  "replace_all c d s = map (\<lambda>x. if x = c then d else x) s"

definition replace_trailing :: "code_unit \<Rightarrow> js_string \<Rightarrow> js_string" where
  "replace_trailing c s = rev (dropWhile (\<lambda>x. x = c) (rev s))"

text \<open>\<^verbatim>\<open>parts.join(sep)\<close>: an element that is \<open>undefined\<close> joins as the empty string.\<close>

fun join :: "js_string \<Rightarrow> js_string option list \<Rightarrow> js_string" where
  "join sep [] = []"
| "join sep [x] = (case x of None \<Rightarrow> [] | Some s \<Rightarrow> s)"
| "join sep (x # y # ys) = (case x of None \<Rightarrow> [] | Some s \<Rightarrow> s) @ sep @ join sep (y # ys)"

definition createReplyMessage ::
  "js_string \<Rightarrow> js_string \<Rightarrow> js_string \<Rightarrow> js_string option \<Rightarrow> js_string \<Rightarrow> js_string" where
  "createReplyMessage from to subject text messageId =
     (let messageParts =
            [Some (lit ''From: '' @ from),
             Some (lit ''To: '' @ to),
             Some (lit ''Subject: Re: '' @ subject),
             Some (lit ''In-Reply-To: '' @ messageId),
             Some (lit ''References: '' @ messageId),
             Some (lit ''''),
             text];
          message = join [0x0A] messageParts;
          encodedMessage =
            replace_trailing 0x3D (replace_all 0x2F 0x5F (replace_all 0x2B 0x2D
              (toString_base64 (Buffer_from message))))
      in encodedMessage)"

subsection \<open>Decoding base64url\<close>

text \<open>
  The decoder the reply encoding is measured against (RFC 4648, section 5, without
  padding): four characters of the URL-safe alphabet give three bytes, a tail of three
  characters gives two bytes and a tail of two gives one; any other character, and a tail
  of one, is refused.
\<close>

definition base64url_alphabet :: js_string where
  "base64url_alphabet = lit ''ABCDEFGHIJKLMNOPQRSTUVWXYZabcdefghijklmnopqrstuvwxyz0123456789-_''"

fun index_of :: "'a \<Rightarrow> 'a list \<Rightarrow> nat option" where
  "index_of x [] = None"
| "index_of x (y # ys) = (if x = y then Some 0 else map_option Suc (index_of x ys))"

definition sextet :: "code_unit \<Rightarrow> nat option" where
  "sextet c = index_of c base64url_alphabet"

fun base64url_decode :: "js_string \<Rightarrow> byte list option" where
  "base64url_decode [] = Some []"
| "base64url_decode [p] = None"
| "base64url_decode [p, q] =
     (case (sextet p, sextet q) of
        (Some i, Some j) \<Rightarrow> Some [of_nat (i * 4 + j div 16)]
      | _ \<Rightarrow> None)"
| "base64url_decode [p, q, r] =
     (case (sextet p, sextet q, sextet r) of
        (Some i, Some j, Some k) \<Rightarrow>
          Some [of_nat (i * 4 + j div 16), of_nat (j mod 16 * 16 + k div 4)]
      | _ \<Rightarrow> None)"
| "base64url_decode (p # q # r # s # rest) =
     (case (sextet p, sextet q, sextet r, sextet s, base64url_decode rest) of
        (Some i, Some j, Some k, Some l, Some bs) \<Rightarrow>
          Some (of_nat (i * 4 + j div 16) # of_nat (j mod 16 * 16 + k div 4)
                # of_nat (k mod 4 * 64 + l) # bs)
      | _ \<Rightarrow> None)"

definition ends_with :: "code_unit \<Rightarrow> js_string \<Rightarrow> bool" where
  "ends_with c s = (s \<noteq> [] \<and> last s = c)"

subsection \<open>Decoding UTF-8\<close>

text \<open>
  The reader the decoded bytes are given to (RFC 3629): a lead byte announces one to three
  continuation bytes of six bits each; a byte out of place, an encoding longer than the
  code point needs, a code point in the surrogate range and one above U+10FFFF are refused.
  The code points come back as UTF-16 code units, a code point above U+FFFF as a surrogate
  pair, so that the result can be compared with a JavaScript string.
\<close>

definition is_continuation :: "byte \<Rightarrow> bool" where
  "is_continuation b = (0x80 \<le> unat b \<and> unat b < 0xC0)"

definition String_fromCodePoint :: "nat \<Rightarrow> js_string" where
  "String_fromCodePoint cp =
     (if cp < 0x10000 then [of_nat cp]
      else [of_nat (0xD800 + (cp - 0x10000) div 0x400),
            of_nat (0xDC00 + (cp - 0x10000) mod 0x400)])"

definition scalar :: "nat \<Rightarrow> nat \<Rightarrow> js_string option" where
  "scalar least cp =
     (if least \<le> cp \<and> cp < 0x110000 \<and> \<not> (0xD800 \<le> cp \<and> cp < 0xE000)
      then Some (String_fromCodePoint cp) else None)"

definition followed :: "js_string option \<Rightarrow> js_string option \<Rightarrow> js_string option" where
  "followed first rest =
     (case (first, rest) of (Some s, Some r) \<Rightarrow> Some (s @ r) | _ \<Rightarrow> None)"

text \<open>
  \<open>utf8_decode_from left cp least bs\<close> reads \<open>bs\<close> when \<open>left\<close> continuation bytes are still due
  for a code point whose bits so far are \<open>cp\<close> and which may not be smaller than \<open>least\<close>.
\<close>

fun utf8_decode_from :: "nat \<Rightarrow> nat \<Rightarrow> nat \<Rightarrow> byte list \<Rightarrow> js_string option" where
  "utf8_decode_from 0 cp least [] = Some []"
| "utf8_decode_from (Suc left) cp least [] = None"
| "utf8_decode_from 0 cp least (b # bs) =
     (if unat b < 0x80 then followed (scalar 0 (unat b)) (utf8_decode_from 0 0 0 bs)
      else if 0xC0 \<le> unat b \<and> unat b < 0xE0 then utf8_decode_from 1 (unat b - 0xC0) 0x80 bs
      else if 0xE0 \<le> unat b \<and> unat b < 0xF0 then utf8_decode_from 2 (unat b - 0xE0) 0x800 bs
      else if 0xF0 \<le> unat b \<and> unat b < 0xF8 then utf8_decode_from 3 (unat b - 0xF0) 0x10000 bs
      else None)"
| "utf8_decode_from (Suc left) cp least (b # bs) =
     (if is_continuation b then
        (if left = 0
         then followed (scalar least (cp * 64 + (unat b - 0x80))) (utf8_decode_from 0 0 0 bs)
         else utf8_decode_from left (cp * 64 + (unat b - 0x80)) least bs)
      else None)"

definition utf8_decode :: "byte list \<Rightarrow> js_string option" where
  "utf8_decode bs = utf8_decode_from 0 0 0 bs"

text \<open>
  A string is well formed when none of its surrogates is unpaired: every high surrogate is
  followed by a low one and every low surrogate follows a high one (ECMAScript
  \<^verbatim>\<open>String.prototype.isWellFormed\<close>). \<^verbatim>\<open>String.prototype.toWellFormed\<close> puts U+FFFD in the
  place of each unpaired surrogate.
\<close>

fun well_formed :: "js_string \<Rightarrow> bool" where
  "well_formed [] = True"
| "well_formed [u] = (\<not> is_high_surrogate u \<and> \<not> is_low_surrogate u)"
| "well_formed (u # v # rest) =
     (if is_high_surrogate u then is_low_surrogate v \<and> well_formed rest
      else \<not> is_low_surrogate u \<and> well_formed (v # rest))"

fun toWellFormed :: "js_string \<Rightarrow> js_string" where
  "toWellFormed [] = []"
| "toWellFormed [u] = (if is_high_surrogate u \<or> is_low_surrogate u then [0xFFFD] else [u])"
| "toWellFormed (u # v # rest) =
     (if is_high_surrogate u then
        (if is_low_surrogate v then u # v # toWellFormed rest
         else 0xFFFD # toWellFormed (v # rest))
      else if is_low_surrogate u then 0xFFFD # toWellFormed (v # rest)
      else u # toWellFormed (v # rest))"

subsection \<open>Collaborators, events and promises\<close>

text \<open>
  The requests the service sends: the four Gmail methods it uses
  (\<^verbatim>\<open>users.messages.list/get/send/modify\<close>, each with its \<open>userId\<close>),
  \<^verbatim>\<open>emailQueue.add(name, data, opts)\<close> and the three methods of the injected classifier.
\<close>

datatype modify_body = AddLabelIds "js_value list" | RemoveLabelIds "js_value list"

text \<open>The data of a queued job: \<^verbatim>\<open>{}\<close> or \<^verbatim>\<open>{ messageId: id }\<close>.\<close>

datatype job_data = NoData | MessageId "js_string option"

datatype request =
    Messages_list js_string js_string
  | Messages_get js_string js_string
  | Messages_send js_string js_string
  | Messages_modify js_string js_string modify_body
  | Queue_add js_string job_data "nat option"
  | AnalyzeEmailContext js_string
  | CategorizeEmailContent js_string
  | GenerateEmailReply js_string

datatype level = LOG | WARN | ERROR

text \<open>
  An event is a call to a collaborator with its outcome (\<open>None\<close>: it answered,
  \<open>Some e\<close>: it threw \<open>e\<close>), or a line written through the logger with its arguments.
\<close>

datatype event = Call request "js_error option" | Logged level "js_value list"

text \<open>
  An \<^verbatim>\<open>async\<close> function takes the events so far and gives its settlement, \<open>Inr\<close> a
  value when the promise resolves and \<open>Inl\<close> an error when it rejects, with the events
  extended.
\<close>

type_synonym 'a promise = "event list \<Rightarrow> (js_error + 'a) \<times> event list"

definition resolve :: "'a \<Rightarrow> 'a promise" where
  "resolve v tr = (Inr v, tr)"

definition reject :: "js_error \<Rightarrow> 'a promise" where
  "reject e tr = (Inl e, tr)"

definition await :: "'a promise \<Rightarrow> ('a \<Rightarrow> 'b promise) \<Rightarrow> 'b promise" where
  "await m k tr = (case m tr of (Inl e, tr') \<Rightarrow> (Inl e, tr') | (Inr v, tr') \<Rightarrow> k v tr')"

definition try_catch :: "'a promise \<Rightarrow> (js_error \<Rightarrow> 'a promise) \<Rightarrow> 'a promise" where
  "try_catch m h tr = (case m tr of (Inl e, tr') \<Rightarrow> h e tr' | (Inr v, tr') \<Rightarrow> (Inr v, tr'))"

fun for_of :: "'a list \<Rightarrow> ('a \<Rightarrow> unit promise) \<Rightarrow> unit promise" where
  "for_of [] body = resolve ()"
| "for_of (x # xs) body = await (body x) (\<lambda>_. for_of xs body)"

text \<open>
  A collaborator's method is an oracle: from the events so far it answers or throws. The
  call is recorded with its outcome.
\<close>

definition call :: "request \<Rightarrow> (event list \<Rightarrow> js_error + 'a) \<Rightarrow> 'a promise" where
  "call rq oracle tr =
     (case oracle tr of
        Inl e \<Rightarrow> (Inl e, tr @ [Call rq (Some e)])
      | Inr v \<Rightarrow> (Inr v, tr @ [Call rq None]))"

definition logger :: "level \<Rightarrow> js_value list \<Rightarrow> unit promise" where
  "logger lv args tr = (Inr (), tr @ [Logged lv args])"

text \<open>Reading a property of \<open>undefined\<close> throws a \<^verbatim>\<open>TypeError\<close>.\<close>

definition property_of :: "'a option \<Rightarrow> string \<Rightarrow> 'a promise" where
  "property_of obj nm =
     (case obj of
        None \<Rightarrow> reject (TypeError (lit ''Cannot read properties of undefined (reading ''
                  @ [0x27] @ lit nm @ [0x27] @ lit '')''))
      | Some v \<Rightarrow> resolve v)"

text \<open>The provider's data, with the fields the service reads; each may be absent.\<close>

record header =
  header_name :: "js_string option"
  header_value :: "js_string option"

record message_part =
  headers :: "header list option"

record message =
  message_id :: "js_string option"
  payload :: "message_part option"
  snippet :: "js_string option"

record list_response =
  messages :: "message list option"

record gmail_client =
  messages_list :: "js_string \<Rightarrow> js_string \<Rightarrow> event list \<Rightarrow> js_error + list_response"
  messages_get :: "js_string \<Rightarrow> js_string \<Rightarrow> event list \<Rightarrow> js_error + message"
  messages_send :: "js_string \<Rightarrow> js_string \<Rightarrow> event list \<Rightarrow> js_error + message"
  messages_modify :: "js_string \<Rightarrow> js_string \<Rightarrow> modify_body \<Rightarrow> event list \<Rightarrow> js_error + message"

record bull_queue =
  queue_add :: "js_string \<Rightarrow> job_data \<Rightarrow> nat option \<Rightarrow> event list \<Rightarrow> js_error + unit"

text \<open>
  The injected classifier, \<^verbatim>\<open>OpenaiService\<close>: its three methods as the email service
  sees them, each resolving to a string or \<open>undefined\<close>, or rejecting.
\<close>

record OpenaiService =
  analyzeEmailContext :: "js_string \<Rightarrow> event list \<Rightarrow> js_error + js_string option"
  categorizeEmailContent :: "js_string \<Rightarrow> event list \<Rightarrow> js_error + js_string option"
  generateEmailReply :: "js_string \<Rightarrow> event list \<Rightarrow> js_error + js_string option"

subsection \<open>The service\<close>

record EmailService =
  gmailClient :: "gmail_client option"
  emailQueue :: bull_queue
  openaiService :: OpenaiService

text \<open>The constructor leaves \<open>gmailClient\<close> undefined.\<close>

definition new_EmailService :: "bull_queue \<Rightarrow> OpenaiService \<Rightarrow> EmailService" where
  "new_EmailService queue openai =
     \<lparr>gmailClient = None, emailQueue = queue, openaiService = openai\<rparr>"

text \<open>
  \<open>labelMapping\<close> is an object literal, so a property that is not its own is looked up
  in \<^verbatim>\<open>Object.prototype\<close>.
\<close>

definition labelMapping :: "(js_string \<times> js_string) list" where
  "labelMapping =
     [(lit ''Interested'', lit ''Label_3035777443514222121''),
      (lit ''Not interested'', lit ''Label_5649682475137114370''),
      (lit ''More information'', lit ''Label_5331249162142973886'')]"

definition Object_prototype :: "(js_string \<times> js_value) list" where
  "Object_prototype =
     [(lit ''constructor'', JFunction (lit ''Object'')),
      (lit ''__defineGetter__'', JFunction (lit ''__defineGetter__'')),
      (lit ''__defineSetter__'', JFunction (lit ''__defineSetter__'')),
      (lit ''hasOwnProperty'', JFunction (lit ''hasOwnProperty'')),
      (lit ''__lookupGetter__'', JFunction (lit ''__lookupGetter__'')),
      (lit ''__lookupSetter__'', JFunction (lit ''__lookupSetter__'')),
      (lit ''isPrototypeOf'', JFunction (lit ''isPrototypeOf'')),
      (lit ''propertyIsEnumerable'', JFunction (lit ''propertyIsEnumerable'')),
      (lit ''toString'', JFunction (lit ''toString'')),
      (lit ''valueOf'', JFunction (lit ''valueOf'')),
      (lit ''__proto__'', JObjectPrototype),
      (lit ''toLocaleString'', JFunction (lit ''toLocaleString''))]"

text \<open>\<^verbatim>\<open>this.labelMapping[category]\<close>: the key is the category converted to a string.\<close>

definition labelMapping_get :: "js_string option \<Rightarrow> js_value" where
  "labelMapping_get category =
     (let key = template (optional category) in
      case map_of labelMapping key of
        Some labelId \<Rightarrow> JString labelId
      | None \<Rightarrow> (case map_of Object_prototype key of Some v \<Rightarrow> v | None \<Rightarrow> JUndefined))"

definition or_null :: "js_value \<Rightarrow> js_value" where
  "or_null v = (if truthy v then v else JNull)"

definition initializeGmailClient ::
  "(js_string \<Rightarrow> gmail_client) \<Rightarrow> js_string \<Rightarrow> EmailService \<Rightarrow> EmailService" where
  "initializeGmailClient google_gmail accessToken this =
     this\<lparr>gmailClient := Some (google_gmail accessToken)\<rparr>"

definition scheduleEmailChecking :: "EmailService \<Rightarrow> unit promise" where
  "scheduleEmailChecking this =
     call (Queue_add (lit ''checkUnreadEmails'') NoData (Some 60000))
       (queue_add (emailQueue this) (lit ''checkUnreadEmails'') NoData (Some 60000))"

definition checkUnreadEmails :: "EmailService \<Rightarrow> unit promise" where
  "checkUnreadEmails this =
     try_catch
       (case gmailClient this of
          None \<Rightarrow> resolve ()
        | Some gmail \<Rightarrow>
            await (call (Messages_list (lit ''me'') (lit ''is:unread''))
                     (messages_list gmail (lit ''me'') (lit ''is:unread''))) (\<lambda>res.
            for_of (case messages res of None \<Rightarrow> [] | Some ms \<Rightarrow> ms) (\<lambda>message.
              call (Queue_add (lit ''processEmail'') (MessageId (message_id message)) None)
                (queue_add (emailQueue this) (lit ''processEmail'')
                   (MessageId (message_id message)) None))))
       (\<lambda>error. logger ERROR [JString (lit ''Error checking unread emails:''),
                               JString (message error)])"

record email_data =
  from_addr :: js_string
  to_addr :: js_string
  subject :: js_string
  emailContent :: js_string

text \<open>\<^verbatim>\<open>headers.find(header => header.name === name)?.value\<close>\<close>

definition find_value :: "js_string \<Rightarrow> header list \<Rightarrow> js_string option" where
  "find_value nm hs =
     (case find (\<lambda>header. header_name header = Some nm) hs of
        None \<Rightarrow> None
      | Some header \<Rightarrow> header_value header)"

definition getEmailData :: "EmailService \<Rightarrow> js_string \<Rightarrow> email_data option promise" where
  "getEmailData this messageId =
     try_catch
       (await (property_of (gmailClient this) ''users'') (\<lambda>gmail.
        await (call (Messages_get (lit ''me'') messageId)
                 (messages_get gmail (lit ''me'') messageId)) (\<lambda>email.
        await (property_of (payload email) ''headers'') (\<lambda>part.
        await (property_of (headers part) ''find'') (\<lambda>hs.
        resolve (Some
          \<lparr>from_addr = or_else (find_value (lit ''From'') hs) (lit ''''),
           to_addr = or_else (find_value (lit ''To'') hs) (lit ''''),
           subject = or_else (find_value (lit ''Subject'') hs) (lit ''No Subject''),
           emailContent = or_else (snippet email) (lit '''')\<rparr>))))))
       (\<lambda>error.
          await (logger ERROR
                   [JString (lit ''Error fetching email data for message ID '' @ messageId @ lit '':''),
                    JString (message error)]) (\<lambda>_.
          resolve None))"

text \<open>The argument of \<open>sendReplyEmail\<close>; \<open>text\<close> is the generated reply, which may be \<open>undefined\<close>.\<close>

record reply_data =
  reply_from :: js_string
  reply_to :: js_string
  reply_subject :: js_string
  reply_text :: "js_string option"

definition sendReplyEmail :: "EmailService \<Rightarrow> js_string \<Rightarrow> reply_data \<Rightarrow> unit promise" where
  "sendReplyEmail this messageId emailData =
     try_catch
       (let from = reply_from emailData; to = reply_to emailData;
            subject = reply_subject emailData; text = reply_text emailData;
            message = createReplyMessage to from subject text messageId
        in await (property_of (gmailClient this) ''users'') (\<lambda>gmail.
           await (call (Messages_send (lit ''me'') message)
                    (messages_send gmail (lit ''me'') message)) (\<lambda>res.
           logger LOG [JString (lit ''Reply sent to: '' @ from @ lit '', message ID: ''
                                @ template (optional (message_id res)))])))
       (\<lambda>error. logger ERROR [JString (lit ''Error sending reply email:''),
                               JString (message error)])"

definition assignLabelToEmail :: "EmailService \<Rightarrow> js_string \<Rightarrow> js_value \<Rightarrow> unit promise" where
  "assignLabelToEmail this messageId labelId =
     try_catch
       (await (property_of (gmailClient this) ''users'') (\<lambda>gmail.
        await (call (Messages_modify (lit ''me'') messageId (AddLabelIds [labelId]))
                 (messages_modify gmail (lit ''me'') messageId (AddLabelIds [labelId]))) (\<lambda>_.
        logger LOG [JString (lit ''Label '' @ template labelId @ lit '' assigned to email: ''
                             @ messageId)])))
       (\<lambda>error.
          logger ERROR
            [JString (lit ''Error assigning label to email for message ID '' @ messageId @ lit '':''),
             JString (message error)])"

definition markEmailAsRead :: "EmailService \<Rightarrow> js_string \<Rightarrow> unit promise" where
  "markEmailAsRead this messageId =
     try_catch
       (await (property_of (gmailClient this) ''users'') (\<lambda>gmail.
        await (call (Messages_modify (lit ''me'') messageId
                       (RemoveLabelIds [JString (lit ''UNREAD'')]))
                 (messages_modify gmail (lit ''me'') messageId
                       (RemoveLabelIds [JString (lit ''UNREAD'')]))) (\<lambda>_.
        logger LOG [JString (lit ''Email marked as read: '' @ messageId)])))
       (\<lambda>error.
          logger ERROR
            [JString (lit ''Error marking email as read for message ID '' @ messageId @ lit '':''),
             JString (message error)])"

definition processIncomingEmail :: "EmailService \<Rightarrow> js_string \<Rightarrow> email_data \<Rightarrow> unit promise" where
  "processIncomingEmail this messageId emailData =
     try_catch
       (let from = from_addr emailData; to = to_addr emailData;
            subject = subject emailData; emailContent = emailContent emailData
        in await (call (AnalyzeEmailContext emailContent)
                    (analyzeEmailContext (openaiService this) emailContent)) (\<lambda>emailContext.
           await (logger LOG [JString (lit ''Email Context:''), optional emailContext]) (\<lambda>_.
           await (call (CategorizeEmailContent emailContent)
                    (categorizeEmailContent (openaiService this) emailContent)) (\<lambda>category.
           await (logger LOG [JString (lit ''Email Category:''), optional category]) (\<lambda>_.
           await (let labelId = or_null (labelMapping_get category)
                  in if truthy labelId then assignLabelToEmail this messageId labelId
                     else logger WARN [JString (lit ''No label found for category: ''
                                                @ template (optional category))]) (\<lambda>_.
           await (call (GenerateEmailReply emailContent)
                    (generateEmailReply (openaiService this) emailContent)) (\<lambda>replyContent.
           await (logger LOG [JString (lit ''Generated Reply:''), optional replyContent]) (\<lambda>_.
           await (sendReplyEmail this messageId
                    \<lparr>reply_from = from, reply_to = to, reply_subject = subject,
                     reply_text = replyContent\<rparr>) (\<lambda>_.
           markEmailAsRead this messageId)))))))))
       (\<lambda>error. logger ERROR [JString (lit ''Error processing incoming email:''),
                               JString (message error)])"

subsection \<open>The classifier service\<close>

text \<open>
  Modelled from the spec: the text provider the classifier service consumes. The service
  itself (\<^verbatim>\<open>src/openai/openai.service\<close>, imported by the email service) is not among the
  sources. The spec lists what it consumes: analyze(text) gives a context description,
  categorize(text) a category string and generateReply(text) the reply text.
\<close>

record text_provider =
  analyze :: "js_string \<Rightarrow> event list \<Rightarrow> js_error + js_string"
  categorize :: "js_string \<Rightarrow> event list \<Rightarrow> js_error + js_string"
  generateReply :: "js_string \<Rightarrow> event list \<Rightarrow> js_error + js_string"

text \<open>
  Modelled from the spec: a method of the classifier service. The spec says that each
  step's failure is caught and logged within that step, and that a failed generate-reply
  yields an undefined reply body passed forward. So the method resolves to what the
  provider answers and to \<open>undefined\<close> when the provider throws. The line it logs is
  written by the classifier service and is not an event of the email service.
\<close>

definition caught ::
  "(js_string \<Rightarrow> event list \<Rightarrow> js_error + js_string) \<Rightarrow>
   js_string \<Rightarrow> event list \<Rightarrow> js_error + js_string option" where
  "caught method text tr = (case method text tr of Inl e \<Rightarrow> Inr None | Inr v \<Rightarrow> Inr (Some v))"

text \<open>
  Modelled from the spec: the classifier service over a text provider, its three methods
  each catching the provider's failure.
\<close>

definition spec_OpenaiService :: "text_provider \<Rightarrow> OpenaiService" where
  "spec_OpenaiService provider =
     \<lparr>analyzeEmailContext = caught (analyze provider),
      categorizeEmailContent = caught (categorize provider),
      generateEmailReply = caught (generateReply provider)\<rparr>"

subsection \<open>Reading the events\<close>

text \<open>The requests sent, in order, and those of them that were answered.\<close>

fun requests :: "event list \<Rightarrow> request list" where
  "requests [] = []"
| "requests (Call rq outcome # evs) = rq # requests evs"
| "requests (Logged lv args # evs) = requests evs"

fun answered :: "event list \<Rightarrow> request list" where
  "answered [] = []"
| "answered (Call rq None # evs) = rq # answered evs"
| "answered (Call rq (Some e) # evs) = answered evs"
| "answered (Logged lv args # evs) = answered evs"

text \<open>
  The jobs passed to \<^verbatim>\<open>emailQueue.add\<close>, each with its name, data and delay (\<open>added\<close>), and
  those of them the queue accepted (\<open>enqueued\<close>).
\<close>

fun job_of :: "request \<Rightarrow> (js_string \<times> job_data \<times> nat option) option" where
  "job_of (Queue_add nm job_data opts) = Some (nm, job_data, opts)"
| "job_of rq = None"

definition added :: "event list \<Rightarrow> (js_string \<times> job_data \<times> nat option) list" where
  "added evs = List.map_filter job_of (requests evs)"

definition enqueued :: "event list \<Rightarrow> (js_string \<times> job_data \<times> nat option) list" where
  "enqueued evs = List.map_filter job_of (answered evs)"

text \<open>
  Every call that threw is followed at once by a line at level \<open>ERROR\<close> whose last argument
  is the message of what was thrown.
\<close>

fun failures_logged :: "event list \<Rightarrow> bool" where
  "failures_logged [] = True"
| "failures_logged (Call rq (Some e) # evs) =
     (case evs of
        Logged ERROR args # evs' \<Rightarrow>
          args \<noteq> [] \<and> last args = JString (message e) \<and> failures_logged evs'
      | _ \<Rightarrow> False)"
| "failures_logged (Call rq None # evs) = failures_logged evs"
| "failures_logged (Logged lv args # evs) = failures_logged evs"

text \<open>
  The place in the source a request is sent from: one per Gmail method (the two bodies of
  \<open>modify\<close> apart), the queue, and one per method of the classifier.
\<close>

fun call_site :: "request \<Rightarrow> nat" where
  "call_site (Messages_list userId q) = 0"
| "call_site (Messages_get userId messageId) = 1"
| "call_site (Messages_send userId raw) = 2"
| "call_site (Messages_modify userId messageId (AddLabelIds ids)) = 3"
| "call_site (Messages_modify userId messageId (RemoveLabelIds ids)) = 4"
| "call_site (Queue_add nm job_data opts) = 5"
| "call_site (AnalyzeEmailContext text) = 6"
| "call_site (CategorizeEmailContent text) = 7"
| "call_site (GenerateEmailReply text) = 8"

definition sites :: "event list \<Rightarrow> nat list" where
  "sites evs = map call_site (requests evs)"

text \<open>After a call that threw, nothing is sent from the same place again.\<close>

fun no_retry :: "event list \<Rightarrow> bool" where
  "no_retry [] = True"
| "no_retry (Call rq (Some e) # evs) = (call_site rq \<notin> set (sites evs) \<and> no_retry evs)"
| "no_retry (Call rq None # evs) = no_retry evs"
| "no_retry (Logged lv args # evs) = no_retry evs"

text \<open>
  Two summaries of an asynchronous computation, for whatever events came before: it only
  adds events, sends at most one request from each place of \<open>S\<close> and from no other, and
  every call that threw is logged, but possibly the last one when that is the rejection
  itself (\<open>emits\<close>); or, with nothing left unlogged, it resolves (\<open>settles\<close>).
\<close>

definition pending :: "js_error + 'a \<Rightarrow> event list \<Rightarrow> bool" where
  "pending r new =
     (failures_logged new \<or>
      (\<exists>e pre rq. r = Inl e \<and> new = pre @ [Call rq (Some e)] \<and> failures_logged pre))"

definition emits :: "'a promise \<Rightarrow> nat set \<Rightarrow> bool" where
  "emits m S =
     (\<forall>tr. \<exists>r new. m tr = (r, tr @ new) \<and> pending r new \<and>
        distinct (sites new) \<and> set (sites new) \<subseteq> S)"

definition settles :: "'a promise \<Rightarrow> nat set \<Rightarrow> bool" where
  "settles m S =
     (\<forall>tr. \<exists>v new. m tr = (Inr v, tr @ new) \<and> failures_logged new \<and>
        distinct (sites new) \<and> set (sites new) \<subseteq> S)"

text \<open>A method that never rejects.\<close>

definition resolving :: "(js_string \<Rightarrow> event list \<Rightarrow> js_error + 'a) \<Rightarrow> bool" where
  "resolving method = (\<forall>text tr. \<exists>v. method text tr = Inr v)"

text \<open>
  The value of the first header with the given name, read for the statements about
  \<open>getEmailData\<close>.
\<close>

fun first_header :: "js_string \<Rightarrow> header list \<Rightarrow> js_string option" where
  "first_header nm [] = None"
| "first_header nm (h # hs) =
     (if header_name h = Some nm then header_value h else first_header nm hs)"

text \<open>
  An operation swallows failures: whatever came before, it resolves, every call that threw
  is logged, and nothing is sent again from the place of a call that threw.
\<close>

definition swallows :: "'a promise \<Rightarrow> bool" where
  "swallows m =
     (\<forall>tr. \<exists>v new. m tr = (Inr v, tr @ new) \<and> failures_logged new \<and> no_retry new)"

text \<open>Every request a computation sends satisfies \<open>P\<close>.\<close>

definition sends_only :: "'a promise \<Rightarrow> (request \<Rightarrow> bool) \<Rightarrow> bool" where
  "sends_only m P = (\<forall>tr. \<exists>r new. m tr = (r, tr @ new) \<and> list_all P (requests new))"

subsection \<open>Names used in the proofs\<close>

text \<open>
  The two replacements of \<open>createReplyMessage\<close> on one character, and the three
  replacements on the encoded bytes.
\<close>

definition to_url :: "code_unit \<Rightarrow> code_unit" where
  "to_url c = (if (if c = 0x2B then 0x2D else c) = 0x2F then 0x5F else (if c = 0x2B then 0x2D else c))"

definition base64url :: "byte list \<Rightarrow> js_string" where
  "base64url bs = replace_trailing pad_char (replace_all 0x2F 0x5F (replace_all 0x2B 0x2D (toString_base64 bs)))"

text \<open>\<^verbatim>\<open>res.data.messages || []\<close>, and the request that enqueues one message.\<close>

definition unread :: "list_response \<Rightarrow> message list" where
  "unread res = (case messages res of None \<Rightarrow> [] | Some ms \<Rightarrow> ms)"

definition process_job :: "message \<Rightarrow> request" where
  "process_job m = Queue_add (lit ''processEmail'') (MessageId (message_id m)) None"

subsection \<open>Collaborators for the examples\<close>

text \<open>
  A Gmail client that answers every request (the listing and the message are given) and
  one that throws on every request; a queue that accepts every job and one that refuses
  every job; a classifier with fixed answers and one whose methods all reject.
\<close>

definition answering_gmail :: "message list option \<Rightarrow> message \<Rightarrow> gmail_client" where
  "answering_gmail listing email =
     \<lparr>messages_list = (\<lambda>userId q tr. Inr \<lparr>messages = listing\<rparr>),
      messages_get = (\<lambda>userId messageId tr. Inr email),
      messages_send = (\<lambda>userId raw tr.
        Inr \<lparr>message_id = Some (lit ''r1''), payload = None, snippet = None\<rparr>),
      messages_modify = (\<lambda>userId messageId body tr.
        Inr \<lparr>message_id = Some messageId, payload = None, snippet = None\<rparr>)\<rparr>"

definition throwing_gmail :: "js_error \<Rightarrow> gmail_client" where
  "throwing_gmail e =
     \<lparr>messages_list = (\<lambda>userId q tr. Inl e),
      messages_get = (\<lambda>userId messageId tr. Inl e),
      messages_send = (\<lambda>userId raw tr. Inl e),
      messages_modify = (\<lambda>userId messageId body tr. Inl e)\<rparr>"

definition accepting_queue :: bull_queue where
  "accepting_queue = \<lparr>queue_add = (\<lambda>nm job_data opts tr. Inr ())\<rparr>"

definition throwing_queue :: "js_error \<Rightarrow> bull_queue" where
  "throwing_queue e = \<lparr>queue_add = (\<lambda>nm job_data opts tr. Inl e)\<rparr>"

definition answering_openai ::
  "js_string option \<Rightarrow> js_string option \<Rightarrow> js_string option \<Rightarrow> OpenaiService" where
  "answering_openai context category reply =
     \<lparr>analyzeEmailContext = (\<lambda>text tr. Inr context),
      categorizeEmailContent = (\<lambda>text tr. Inr category),
      generateEmailReply = (\<lambda>text tr. Inr reply)\<rparr>"

definition throwing_openai :: "js_error \<Rightarrow> OpenaiService" where
  "throwing_openai e =
     \<lparr>analyzeEmailContext = (\<lambda>text tr. Inl e),
      categorizeEmailContent = (\<lambda>text tr. Inl e),
      generateEmailReply = (\<lambda>text tr. Inl e)\<rparr>"

text \<open>A text provider that classifies but fails to generate the reply.\<close>

definition silent_provider :: "js_string \<Rightarrow> js_string \<Rightarrow> js_error \<Rightarrow> text_provider" where
  "silent_provider context category e =
     \<lparr>analyze = (\<lambda>text tr. Inr context),
      categorize = (\<lambda>text tr. Inr category),
      generateReply = (\<lambda>text tr. Inl e)\<rparr>"

text \<open>Messages: one with the three headers and a snippet, and one as a listing gives it.\<close>

definition mail :: "js_string \<Rightarrow> js_string \<Rightarrow> js_string \<Rightarrow> js_string \<Rightarrow> message" where
  "mail subj sender recipient summary =
     \<lparr>message_id = Some (lit ''m1''),
      payload = Some \<lparr>headers = Some
        [\<lparr>header_name = Some (lit ''Subject''), header_value = Some subj\<rparr>,
         \<lparr>header_name = Some (lit ''From''), header_value = Some sender\<rparr>,
         \<lparr>header_name = Some (lit ''To''), header_value = Some recipient\<rparr>]\<rparr>,
      snippet = Some summary\<rparr>"

definition unread_message :: "js_string \<Rightarrow> message" where
  "unread_message messageId = \<lparr>message_id = Some messageId, payload = None, snippet = None\<rparr>"

definition three_unread :: "message list" where
  "three_unread = [unread_message (lit ''m1''), unread_message (lit ''m2''), unread_message (lit ''m3'')]"

text \<open>
  Services: one whose mail provider answers, one whose mail provider throws on every
  request, and one as the constructor leaves it, with a queue that refuses every job.
\<close>

definition example_service :: "message list option \<Rightarrow> message \<Rightarrow> OpenaiService \<Rightarrow> EmailService" where
  "example_service listing email openai =
     \<lparr>gmailClient = Some (answering_gmail listing email),
      emailQueue = accepting_queue,
      openaiService = openai\<rparr>"

definition offline_service :: "js_error \<Rightarrow> OpenaiService \<Rightarrow> EmailService" where
  "offline_service e openai =
     \<lparr>gmailClient = Some (throwing_gmail e),
      emailQueue = accepting_queue,
      openaiService = openai\<rparr>"

definition fresh_service :: "js_error \<Rightarrow> EmailService" where
  "fresh_service e = new_EmailService (throwing_queue e) (throwing_openai e)"

section \<open>The reply encoding\<close>

lemma length_base64_alphabet: "length base64_alphabet = 64"
  by (simp add: base64_alphabet_def lit_def)

lemma length_base64url_alphabet: "length base64url_alphabet = 64"
  by (simp add: base64url_alphabet_def lit_def)

lemma distinct_base64url_alphabet: "distinct base64url_alphabet"
  by (simp add: base64url_alphabet_def lit_def)

lemma pad_not_in_alphabet: "pad_char \<notin> set base64url_alphabet"
  by (simp add: base64url_alphabet_def lit_def pad_char_def)

lemma index_of_nth: "distinct xs \<Longrightarrow> n < length xs \<Longrightarrow> index_of (xs ! n) xs = Some n"
proof (induction xs arbitrary: n)
  case Nil
  then show ?case by simp
next
  case (Cons y ys)
  show ?case
  proof (cases n)
    case 0
    then show ?thesis by simp
  next
    case (Suc m)
    with Cons.prems have "ys ! m \<in> set ys" "y \<notin> set ys" by auto
    then have "ys ! m \<noteq> y" by auto
    with Cons Suc show ?thesis by simp
  qed
qed

lemma sextet_arith:
  fixes x y z :: nat
  assumes "x < 256" "y < 256" "z < 256"
  shows "x div 4 * 4 + (x mod 4 * 16 + y div 16) div 16 = x"
    and "(x mod 4 * 16 + y div 16) mod 16 * 16 + (y mod 16 * 4 + z div 64) div 4 = y"
    and "(y mod 16 * 4 + z div 64) mod 4 * 64 + z mod 64 = z"
    and "x div 4 < 64" and "x mod 4 * 16 + y div 16 < 64"
    and "y mod 16 * 4 + z div 64 < 64" and "z mod 64 < 64"
    and "x div 4 * 4 + (x mod 4 * 16) div 16 = x"
    and "(x mod 4 * 16 + y div 16) mod 16 * 16 + (y mod 16 * 4) div 4 = y"
    and "x mod 4 * 16 < 64" and "y mod 16 * 4 < 64"
  using assms by simp_all

lemma replace_all_url: "replace_all 0x2F 0x5F (replace_all 0x2B 0x2D s) = map to_url s"
  by (simp add: replace_all_def to_url_def)

lemma map_to_url_alphabet: "map to_url base64_alphabet = base64url_alphabet"
  by (simp add: base64_alphabet_def base64url_alphabet_def lit_def to_url_def)

lemma to_url_pad: "to_url pad_char = pad_char"
  by (simp add: to_url_def pad_char_def)

lemma url_char:
  assumes "n < 64"
  shows "to_url (base64_char n) = base64url_alphabet ! n"
proof -
  from assms have "map to_url base64_alphabet ! n = to_url (base64_alphabet ! n)"
    by (simp only: nth_map length_base64_alphabet)
  then show ?thesis
    by (simp only: map_to_url_alphabet base64_char_def)
qed

lemma sextet_url: "n < 64 \<Longrightarrow> sextet (base64url_alphabet ! n) = Some n"
  by (simp add: sextet_def index_of_nth distinct_base64url_alphabet length_base64url_alphabet)

lemma url_not_pad:
  assumes "n < 64"
  shows "base64url_alphabet ! n \<noteq> pad_char"
proof
  assume "base64url_alphabet ! n = pad_char"
  moreover from assms have "base64url_alphabet ! n \<in> set base64url_alphabet"
    by (simp only: nth_mem length_base64url_alphabet)
  ultimately have "pad_char \<in> set base64url_alphabet" by simp
  with pad_not_in_alphabet show False by simp
qed

lemma replace_trailing_Cons:
  "replace_trailing c (x # xs) =
     (if x = c \<and> replace_trailing c xs = [] then [] else x # replace_trailing c xs)"
  by (auto simp: replace_trailing_def dropWhile_append)

lemma replace_trailing_keep: "x \<noteq> c \<Longrightarrow> replace_trailing c (x # xs) = x # replace_trailing c xs"
  by (simp add: replace_trailing_Cons)

lemma replace_trailing_pads:
  "replace_trailing c [c] = []" "replace_trailing c [c, c] = []"
  by (simp_all add: replace_trailing_def)

lemma base64url_Nil: "base64url [] = []"
  by (simp add: base64url_def replace_all_def replace_trailing_def)

lemma base64url_1:
  "base64url [a] = [base64url_alphabet ! (unat a div 4), base64url_alphabet ! (unat a mod 4 * 16)]"
proof -
  have a: "unat a < 256" using unsigned_less [of a] by simp
  note ar = sextet_arith [OF a a a]
  show ?thesis
    by (simp only: base64url_def replace_all_url toString_base64.simps list.map to_url_pad
        url_char [OF ar(4)] url_char [OF ar(10)]
        replace_trailing_keep [OF url_not_pad [OF ar(4)]]
        replace_trailing_keep [OF url_not_pad [OF ar(10)]] replace_trailing_pads)
qed

lemma base64url_2:
  "base64url [a, b] = [base64url_alphabet ! (unat a div 4),
      base64url_alphabet ! (unat a mod 4 * 16 + unat b div 16),
      base64url_alphabet ! (unat b mod 16 * 4)]"
proof -
  have a: "unat a < 256" and b: "unat b < 256"
    using unsigned_less [of a] unsigned_less [of b] by simp_all
  note ar = sextet_arith [OF a b b]
  show ?thesis
    by (simp only: base64url_def replace_all_url toString_base64.simps list.map to_url_pad
        url_char [OF ar(4)] url_char [OF ar(5)] url_char [OF ar(11)]
        replace_trailing_keep [OF url_not_pad [OF ar(4)]]
        replace_trailing_keep [OF url_not_pad [OF ar(5)]]
        replace_trailing_keep [OF url_not_pad [OF ar(11)]] replace_trailing_pads)
qed

lemma base64url_3:
  "base64url (a # b # c # rest) = base64url_alphabet ! (unat a div 4) #
      base64url_alphabet ! (unat a mod 4 * 16 + unat b div 16) #
      base64url_alphabet ! (unat b mod 16 * 4 + unat c div 64) #
      base64url_alphabet ! (unat c mod 64) # base64url rest"
proof -
  have a: "unat a < 256" and b: "unat b < 256" and c: "unat c < 256"
    using unsigned_less [of a] unsigned_less [of b] unsigned_less [of c] by simp_all
  note ar = sextet_arith [OF a b c]
  show ?thesis
    by (simp only: base64url_def replace_all_url toString_base64.simps list.map map_append
        append_Cons append_Nil
        url_char [OF ar(4)] url_char [OF ar(5)] url_char [OF ar(6)] url_char [OF ar(7)]
        replace_trailing_keep [OF url_not_pad [OF ar(4)]]
        replace_trailing_keep [OF url_not_pad [OF ar(5)]]
        replace_trailing_keep [OF url_not_pad [OF ar(6)]]
        replace_trailing_keep [OF url_not_pad [OF ar(7)]])
qed

lemma base64url_decode_base64url: "base64url_decode (base64url bs) = Some bs"
proof (induction bs rule: toString_base64.induct)
  case 1
  show ?case by (simp add: base64url_Nil)
next
  case (2 a)
  have a: "unat a < 256" using unsigned_less [of a] by simp
  note ar = sextet_arith [OF a a a]
  show ?case
    by (simp only: base64url_1 base64url_decode.simps sextet_url [OF ar(4)]
        sextet_url [OF ar(10)] prod.case option.case ar(8)) simp
next
  case (3 a b)
  have a: "unat a < 256" and b: "unat b < 256"
    using unsigned_less [of a] unsigned_less [of b] by simp_all
  note ar = sextet_arith [OF a b b]
  show ?case
    by (simp only: base64url_2 base64url_decode.simps sextet_url [OF ar(4)]
        sextet_url [OF ar(5)] sextet_url [OF ar(11)] prod.case option.case ar(1) ar(9)) simp
next
  case (4 a b c rest)
  have a: "unat a < 256" and b: "unat b < 256" and c: "unat c < 256"
    using unsigned_less [of a] unsigned_less [of b] unsigned_less [of c] by simp_all
  note ar = sextet_arith [OF a b c]
  show ?case
    by (simp only: base64url_3 base64url_decode.simps sextet_url [OF ar(4)]
        sextet_url [OF ar(5)] sextet_url [OF ar(6)] sextet_url [OF ar(7)] 4
        prod.case option.case ar(1) ar(2) ar(3)) simp
qed

lemma createReplyMessage_base64url:
  "createReplyMessage a b S T M =
     base64url (Buffer_from (lit ''From: '' @ a @ [0x0A] @ lit ''To: '' @ b @ [0x0A]
       @ lit ''Subject: Re: '' @ S @ [0x0A] @ lit ''In-Reply-To: '' @ M @ [0x0A]
       @ lit ''References: '' @ M @ [0x0A] @ [0x0A] @ (case T of None \<Rightarrow> [] | Some s \<Rightarrow> s)))"
  by (simp add: createReplyMessage_def base64url_def pad_char_def lit_def)

lemma replace_all_absent: "c \<noteq> d \<Longrightarrow> c \<notin> set (replace_all c d s)"
  by (auto simp: replace_all_def)

lemma replace_all_keeps_absent: "x \<noteq> d \<Longrightarrow> x \<notin> set s \<Longrightarrow> x \<notin> set (replace_all c d s)"
  by (auto simp: replace_all_def)

lemma set_replace_trailing: "x \<notin> set s \<Longrightarrow> x \<notin> set (replace_trailing c s)"
  using set_dropWhileD [of x "\<lambda>x. x = c" "rev s"] by (auto simp: replace_trailing_def)

lemma replace_trailing_ends: "\<not> ends_with c (replace_trailing c s)"
proof -
  have "dropWhile (\<lambda>x. x = c) (rev s) = [] \<or> hd (dropWhile (\<lambda>x. x = c) (rev s)) \<noteq> c"
    using hd_dropWhile [of "\<lambda>x. x = c" "rev s"] by blast
  then show ?thesis
    by (auto simp: ends_with_def replace_trailing_def last_rev)
qed

lemma createReplyMessage_alphabet:
  "0x2B \<notin> set (createReplyMessage a b S T M)"
  "0x2F \<notin> set (createReplyMessage a b S T M)"
  "\<not> ends_with 0x3D (createReplyMessage a b S T M)"
proof -
  show "0x2B \<notin> set (createReplyMessage a b S T M)"
    unfolding createReplyMessage_def Let_def
    by (rule set_replace_trailing, rule replace_all_keeps_absent, simp,
        rule replace_all_absent, simp)
  show "0x2F \<notin> set (createReplyMessage a b S T M)"
    unfolding createReplyMessage_def Let_def
    by (rule set_replace_trailing, rule replace_all_absent, simp)
  show "\<not> ends_with 0x3D (createReplyMessage a b S T M)"
    unfolding createReplyMessage_def Let_def
    by (rule replace_trailing_ends)
qed

lemma example_reply:
  "createReplyMessage (lit ''a'') (lit ''b'') (lit ''S'') (Some (lit ''T'')) (lit ''M'') =
     lit ''RnJvbTogYQpUbzogYgpTdWJqZWN0OiBSZTogUwpJbi1SZXBseS1UbzogTQpSZWZlcmVuY2VzOiBNCgpU''"
  by (simp add: createReplyMessage_def lit_def utf8_bytes_def is_high_surrogate_def
      is_low_surrogate_def base64_char_def base64_alphabet_def pad_char_def
      replace_all_def replace_trailing_def)

subsection \<open>UTF-8 read back\<close>

lemma unat_byte: "n < 256 \<Longrightarrow> unat (of_nat n :: byte) = n"
  by (simp add: unat_of_nat)

lemma followed_Some: "followed (Some s) r = map_option ((@) s) r"
  by (cases r) (simp_all add: followed_def)

lemma decode_lead1:
  "unat b = n \<Longrightarrow> n < 0x80 \<Longrightarrow> utf8_decode_from 0 c l (b # bs) =
     followed (scalar 0 n) (utf8_decode_from 0 0 0 bs)"
  by simp

lemma decode_lead2:
  "unat b = 0xC0 + n \<Longrightarrow> n < 32 \<Longrightarrow> utf8_decode_from 0 c l (b # bs) =
     utf8_decode_from (Suc 0) n 0x80 bs"
  by simp

lemma decode_lead3:
  "unat b = 0xE0 + n \<Longrightarrow> n < 16 \<Longrightarrow> utf8_decode_from 0 c l (b # bs) =
     utf8_decode_from (Suc (Suc 0)) n 0x800 bs"
  by (simp add: numeral_2_eq_2)

lemma decode_lead4:
  "unat b = 0xF0 + n \<Longrightarrow> n < 8 \<Longrightarrow> utf8_decode_from 0 c l (b # bs) =
     utf8_decode_from (Suc (Suc (Suc 0))) n 0x10000 bs"
  by (simp add: numeral_3_eq_3)

lemma decode_last:
  "unat b = 0x80 + n \<Longrightarrow> n < 64 \<Longrightarrow> utf8_decode_from (Suc 0) cp l (b # bs) =
     followed (scalar l (cp * 64 + n)) (utf8_decode_from 0 0 0 bs)"
  by (simp add: is_continuation_def)

lemma decode_continuation:
  "unat b = 0x80 + n \<Longrightarrow> n < 64 \<Longrightarrow> utf8_decode_from (Suc (Suc k)) cp l (b # bs) =
     utf8_decode_from (Suc k) (cp * 64 + n) l bs"
  by (simp add: is_continuation_def)

lemma sextets2: "cp div 64 * 64 + cp mod 64 = (cp::nat)"
  by simp

lemma sextets3: "(cp div 4096 * 64 + cp div 64 mod 64) * 64 + cp mod 64 = (cp::nat)"
proof -
  have "cp div 4096 = cp div 64 div 64"
    using div_mult2_eq [of cp 64 64] by simp
  then show ?thesis by simp
qed

lemma sextets4:
  "((cp div 262144 * 64 + cp div 4096 mod 64) * 64 + cp div 64 mod 64) * 64 + cp mod 64 = (cp::nat)"
proof -
  have "cp div 4096 = cp div 64 div 64"
    using div_mult2_eq [of cp 64 64] by simp
  moreover have "cp div 262144 = cp div 64 div 64 div 64"
    using div_mult2_eq [of cp 4096 64] div_mult2_eq [of cp 64 64] by simp
  ultimately show ?thesis by simp
qed

lemma utf8_decode_bytes:
  assumes "cp < 0x110000" "\<not> (0xD800 \<le> cp \<and> cp < 0xE000)"
  shows "utf8_decode_from 0 c l (utf8_bytes cp @ bs) =
           map_option ((@) (String_fromCodePoint cp)) (utf8_decode_from 0 0 0 bs)"
proof -
  consider "cp < 0x80" | "0x80 \<le> cp" "cp < 0x800" | "0x800 \<le> cp" "cp < 0x10000"
    | "0x10000 \<le> cp"
    by linarith
  then show ?thesis
  proof cases
    case 1
    then have b: "unat (of_nat cp :: byte) = cp"
      by (simp add: unat_byte)
    from 1 have "utf8_bytes cp @ bs = of_nat cp # bs"
      by (simp add: utf8_bytes_def)
    with decode_lead1 [OF b 1] 1 show ?thesis
      by (simp add: scalar_def followed_Some)
  next
    case 2
    then have n: "cp div 64 < 32" "cp mod 64 < 64" by simp_all
    have b: "unat (of_nat (0xC0 + cp div 64) :: byte) = 0xC0 + cp div 64"
      "unat (of_nat (0x80 + cp mod 64) :: byte) = 0x80 + cp mod 64"
      using n by (simp_all only: unat_byte)
    from 2 have "utf8_bytes cp @ bs =
        of_nat (0xC0 + cp div 64) # of_nat (0x80 + cp mod 64) # bs"
      by (simp add: utf8_bytes_def)
    then have "utf8_decode_from 0 c l (utf8_bytes cp @ bs) =
        followed (scalar 0x80 cp) (utf8_decode_from 0 0 0 bs)"
      by (simp only: decode_lead2 [OF b(1) n(1)] decode_last [OF b(2) n(2)] sextets2)
    with 2 show ?thesis
      by (simp add: scalar_def followed_Some)
  next
    case 3
    then have n: "cp div 4096 < 16" "cp div 64 mod 64 < 64" "cp mod 64 < 64" by simp_all
    have b: "unat (of_nat (0xE0 + cp div 4096) :: byte) = 0xE0 + cp div 4096"
      "unat (of_nat (0x80 + cp div 64 mod 64) :: byte) = 0x80 + cp div 64 mod 64"
      "unat (of_nat (0x80 + cp mod 64) :: byte) = 0x80 + cp mod 64"
      using n by (simp_all only: unat_byte)
    from 3 have "utf8_bytes cp @ bs =
        of_nat (0xE0 + cp div 4096) # of_nat (0x80 + cp div 64 mod 64)
          # of_nat (0x80 + cp mod 64) # bs"
      by (simp add: utf8_bytes_def)
    then have "utf8_decode_from 0 c l (utf8_bytes cp @ bs) =
        followed (scalar 0x800 cp) (utf8_decode_from 0 0 0 bs)"
      by (simp only: decode_lead3 [OF b(1) n(1)] decode_continuation [OF b(2) n(2)]
          decode_last [OF b(3) n(3)] sextets3)
    with 3 assms show ?thesis
      by (simp add: scalar_def followed_Some)
  next
    case 4
    with assms have n: "cp div 262144 < 8" "cp div 4096 mod 64 < 64" "cp div 64 mod 64 < 64"
      "cp mod 64 < 64" by simp_all
    have b: "unat (of_nat (0xF0 + cp div 262144) :: byte) = 0xF0 + cp div 262144"
      "unat (of_nat (0x80 + cp div 4096 mod 64) :: byte) = 0x80 + cp div 4096 mod 64"
      "unat (of_nat (0x80 + cp div 64 mod 64) :: byte) = 0x80 + cp div 64 mod 64"
      "unat (of_nat (0x80 + cp mod 64) :: byte) = 0x80 + cp mod 64"
      using n by (simp_all only: unat_byte)
    from 4 have "utf8_bytes cp @ bs =
        of_nat (0xF0 + cp div 262144) # of_nat (0x80 + cp div 4096 mod 64)
          # of_nat (0x80 + cp div 64 mod 64) # of_nat (0x80 + cp mod 64) # bs"
      by (simp add: utf8_bytes_def)
    then have "utf8_decode_from 0 c l (utf8_bytes cp @ bs) =
        followed (scalar 0x10000 cp) (utf8_decode_from 0 0 0 bs)"
      by (simp only: decode_lead4 [OF b(1) n(1)] decode_continuation [OF b(2) n(2)]
          decode_continuation [OF b(3) n(3)] decode_last [OF b(4) n(4)] sextets4)
    with 4 assms show ?thesis
      by (simp add: scalar_def followed_Some)
  qed
qed

lemma fromCodePoint_unit: "String_fromCodePoint (unat u) = [u]" for u :: code_unit
  using unsigned_less [of u, where ?'a = nat] by (simp add: String_fromCodePoint_def)

lemma surrogate_pair_range:
  assumes "is_high_surrogate h" "is_low_surrogate l"
  shows "0x10000 \<le> surrogate_pair h l" "surrogate_pair h l < 0x110000"
proof -
  from assms have "unat h \<le> 0xDBFF" "unat l \<le> 0xDFFF"
    by (simp_all add: is_high_surrogate_def is_low_surrogate_def word_le_nat_alt)
  then have "unat h - 0xD800 \<le> 0x3FF" "unat l - 0xDC00 \<le> 0x3FF"
    by linarith+
  moreover from this(1) have "(unat h - 0xD800) * 0x400 \<le> 0x3FF * 0x400"
    by (rule mult_le_mono1)
  ultimately show "surrogate_pair h l < 0x110000"
    by (simp add: surrogate_pair_def)
  show "0x10000 \<le> surrogate_pair h l"
    by (simp add: surrogate_pair_def)
qed

lemma fromCodePoint_pair:
  assumes "is_high_surrogate h" "is_low_surrogate l"
  shows "String_fromCodePoint (surrogate_pair h l) = [h, l]"
proof -
  from assms have h: "0xD800 \<le> unat h" "unat h \<le> 0xDBFF"
    and l: "0xDC00 \<le> unat l" "unat l \<le> 0xDFFF"
    by (simp_all add: is_high_surrogate_def is_low_surrogate_def word_le_nat_alt)
  define x where "x = unat h - 0xD800"
  define y where "y = unat l - 0xDC00"
  from h l have xy: "unat h = 0xD800 + x" "unat l = 0xDC00 + y" "y < 0x400"
    by (simp_all add: x_def y_def)
  have "surrogate_pair h l - 0x10000 = x * 0x400 + y"
    by (simp add: surrogate_pair_def x_def y_def)
  moreover from xy have "(x * 0x400 + y) div 0x400 = x" "(x * 0x400 + y) mod 0x400 = y"
    by simp_all
  ultimately have "String_fromCodePoint (surrogate_pair h l) =
      [of_nat (unat h), of_nat (unat l)]"
    using surrogate_pair_range [OF assms]
    by (simp only: String_fromCodePoint_def xy) simp
  then show ?thesis by simp
qed

lemma utf8_decode_unit:
  assumes "\<not> is_high_surrogate u" "\<not> is_low_surrogate u"
  shows "utf8_decode_from 0 c l (utf8_bytes (unat u) @ bs) =
           map_option ((#) u) (utf8_decode_from 0 0 0 bs)"
proof -
  have "unat u < 0x110000"
    using unsigned_less [of u, where ?'a = nat] by simp
  moreover from assms have "\<not> (0xD800 \<le> unat u \<and> unat u < 0xE000)"
    by (auto simp: is_high_surrogate_def is_low_surrogate_def word_le_nat_alt)
  ultimately show ?thesis
    by (cases "utf8_decode_from 0 0 0 bs") (simp_all add: utf8_decode_bytes fromCodePoint_unit)
qed

lemma utf8_decode_pair:
  assumes "is_high_surrogate h" "is_low_surrogate w"
  shows "utf8_decode_from 0 c l (utf8_bytes (surrogate_pair h w) @ bs) =
           map_option (\<lambda>r. h # w # r) (utf8_decode_from 0 0 0 bs)"
proof -
  from surrogate_pair_range [OF assms]
  have "surrogate_pair h w < 0x110000"
    "\<not> (0xD800 \<le> surrogate_pair h w \<and> surrogate_pair h w < 0xE000)"
    by simp_all
  then show ?thesis
    by (cases "utf8_decode_from 0 0 0 bs")
      (simp_all add: utf8_decode_bytes fromCodePoint_pair [OF assms])
qed

lemma utf8_decode_replacement:
  "utf8_decode_from 0 c l (replacement_character @ bs) =
     map_option ((#) 0xFFFD) (utf8_decode_from 0 0 0 bs)"
proof -
  have "utf8_bytes 0xFFFD = replacement_character"
    by (simp add: utf8_bytes_def replacement_character_def)
  with utf8_decode_bytes [of "0xFFFD" c l bs] show ?thesis
    by (cases "utf8_decode_from 0 0 0 bs") (simp_all add: String_fromCodePoint_def)
qed

lemma utf8_decode_Buffer_from: "utf8_decode (Buffer_from s) = Some (toWellFormed s)"
  unfolding utf8_decode_def
proof (induction s rule: Buffer_from.induct)
  case 1
  show ?case by simp
next
  case (2 u)
  show ?case
    using utf8_decode_unit [of u 0 0 "[]"] utf8_decode_replacement [of 0 0 "[]"]
    by simp
next
  case (3 u v rest)
  then show ?case
    by (simp add: utf8_decode_unit utf8_decode_pair utf8_decode_replacement)
qed

lemma toWellFormed_well_formed: "well_formed s \<Longrightarrow> toWellFormed s = s"
  by (induction s rule: well_formed.induct) (simp_all split: if_splits)

lemma well_formed_Cons:
  "\<not> is_high_surrogate u \<Longrightarrow> \<not> is_low_surrogate u \<Longrightarrow>
     well_formed (u # s) = well_formed s"
  by (cases s) simp_all

lemma well_formed_append: "well_formed x \<Longrightarrow> well_formed y \<Longrightarrow> well_formed (x @ y)"
proof (induction x rule: well_formed.induct)
  case 1
  then show ?case by simp
next
  case (2 u)
  then show ?case by (simp add: well_formed_Cons)
next
  case (3 u v rest)
  then show ?case by (simp split: if_splits)
qed

lemma well_formed_literals:
  "well_formed (lit ''From: '')" "well_formed (lit ''To: '')"
  "well_formed (lit ''Subject: Re: '')" "well_formed (lit ''In-Reply-To: '')"
  "well_formed (lit ''References: '')" "well_formed [0x0A]"
  by (simp_all add: lit_def is_high_surrogate_def is_low_surrogate_def)

lemma well_formed_block:
  assumes "well_formed a" "well_formed b" "well_formed S" "well_formed T" "well_formed M"
  shows "well_formed (lit ''From: '' @ a @ [0x0A] @ lit ''To: '' @ b @ [0x0A]
       @ lit ''Subject: Re: '' @ S @ [0x0A] @ lit ''In-Reply-To: '' @ M @ [0x0A]
       @ lit ''References: '' @ M @ [0x0A] @ [0x0A] @ T)"
  by (intro well_formed_append well_formed_literals assms)

lemma createReplyMessage_utf8:
  "Option.bind (base64url_decode (createReplyMessage a b S T M)) utf8_decode =
     Some (toWellFormed (lit ''From: '' @ a @ [0x0A] @ lit ''To: '' @ b @ [0x0A]
       @ lit ''Subject: Re: '' @ S @ [0x0A] @ lit ''In-Reply-To: '' @ M @ [0x0A]
       @ lit ''References: '' @ M @ [0x0A] @ [0x0A] @ (case T of None \<Rightarrow> [] | Some s \<Rightarrow> s)))"
  by (simp only: createReplyMessage_base64url base64url_decode_base64url bind.bind_lunit
      utf8_decode_Buffer_from)

lemma example_block:
  "lit ''From: '' @ lit ''a'' @ [0x0A] @ lit ''To: '' @ lit ''b'' @ [0x0A]
       @ lit ''Subject: Re: '' @ lit ''S'' @ [0x0A] @ lit ''In-Reply-To: '' @ lit ''M'' @ [0x0A]
       @ lit ''References: '' @ lit ''M'' @ [0x0A] @ [0x0A] @ T =
   lit ''From: a'' @ [0x0A] @ lit ''To: b'' @ [0x0A] @ lit ''Subject: Re: S''
        @ [0x0A] @ lit ''In-Reply-To: M'' @ [0x0A] @ lit ''References: M'' @ [0x0A] @ [0x0A] @ T"
  by (simp add: lit_def)


section \<open>Events of the operations\<close>

subsection \<open>Summaries of promises\<close>

lemma requests_append: "requests (a @ b) = requests a @ requests b"
  by (induction a rule: requests.induct) simp_all

lemma sites_append: "sites (a @ b) = sites a @ sites b"
  by (simp add: sites_def requests_append)

lemma sites_simps:
  "sites [] = []"
  "sites (Call rq outcome # evs) = call_site rq # sites evs"
  "sites (Logged lv args # evs) = sites evs"
  by (simp_all add: sites_def)

lemma failures_logged_append:
  "failures_logged a \<Longrightarrow> failures_logged (a @ b) = failures_logged b"
proof (induction a rule: failures_logged.induct)
  case 1
  show ?case by simp
next
  case (2 rq e evs)
  then show ?case
    by (auto split: list.splits event.splits level.splits)
next
  case (3 rq evs)
  then show ?case by simp
next
  case (4 lv args evs)
  then show ?case by simp
qed

lemma failures_logged_caught:
  assumes "failures_logged pre" "args \<noteq> []" "last args = JString (message e)"
  shows "failures_logged (pre @ [Call rq (Some e), Logged ERROR args])"
  using assms by (simp add: failures_logged_append)

lemma no_retry_distinct: "distinct (sites evs) \<Longrightarrow> no_retry evs"
  by (induction evs rule: no_retry.induct) (simp_all add: sites_simps)

lemma emits_resolve: "emits (resolve v) {}"
  by (simp add: emits_def resolve_def pending_def sites_simps)

lemma emits_reject: "emits (reject e) {}"
  by (simp add: emits_def reject_def pending_def sites_simps)

lemma emits_logger: "emits (logger lv args) {}"
  by (simp add: emits_def logger_def pending_def sites_simps)

lemma emits_property_of: "emits (property_of obj nm) {}"
  by (cases obj) (simp_all add: property_of_def emits_resolve emits_reject)

lemma emits_call: "emits (call rq oracle) {call_site rq}"
  unfolding emits_def
proof
  fix tr
  show "\<exists>r new. call rq oracle tr = (r, tr @ new) \<and> pending r new \<and>
          distinct (sites new) \<and> set (sites new) \<subseteq> {call_site rq}"
  proof (cases "oracle tr")
    case (Inl e)
    have "pending (Inl e :: js_error + 'a) ([] @ [Call rq (Some e)])"
      unfolding pending_def by (intro disjI2 exI conjI) (rule refl, rule refl, simp)
    with Inl show ?thesis
      by (simp add: call_def sites_simps)
  next
    case (Inr v)
    then show ?thesis
      by (simp add: call_def pending_def sites_simps)
  qed
qed

lemma emits_mono: "emits m S \<Longrightarrow> S \<subseteq> T \<Longrightarrow> emits m T"
  unfolding emits_def by (meson order_trans)

lemma settles_emits: "settles m S \<Longrightarrow> emits m S"
  unfolding settles_def emits_def pending_def by meson

lemma emits_await:
  assumes m: "emits m S" and k: "\<And>v. emits (k v) T" and disj: "S \<inter> T = {}"
  shows "emits (await m k) (S \<union> T)"
  unfolding emits_def
proof
  fix tr
  from m obtain r a where a: "m tr = (r, tr @ a)" "pending r a" "distinct (sites a)"
    "set (sites a) \<subseteq> S"
    unfolding emits_def by blast
  show "\<exists>r new. await m k tr = (r, tr @ new) \<and> pending r new \<and>
          distinct (sites new) \<and> set (sites new) \<subseteq> S \<union> T"
  proof (cases r)
    case (Inl e)
    with a have "await m k tr = (Inl e, tr @ a)" "pending (Inl e :: js_error + 'b) a"
      by (auto simp: await_def pending_def)
    with a show ?thesis by blast
  next
    case (Inr v)
    with a have fa: "failures_logged a" by (simp add: pending_def)
    from k [of v] obtain r' b where b: "k v (tr @ a) = (r', (tr @ a) @ b)" "pending r' b"
      "distinct (sites b)" "set (sites b) \<subseteq> T"
      unfolding emits_def by blast
    from Inr a b have "await m k tr = (r', tr @ (a @ b))"
      by (simp add: await_def)
    moreover have "pending r' (a @ b)"
    proof -
      from b(2) consider "failures_logged b"
        | e pre rq where "r' = Inl e" "b = pre @ [Call rq (Some e)]" "failures_logged pre"
        unfolding pending_def by blast
      then show ?thesis
      proof cases
        case 1
        with fa show ?thesis by (simp add: pending_def failures_logged_append)
      next
        case 2
        with fa have "a @ b = (a @ pre) @ [Call rq (Some e)]" "failures_logged (a @ pre)"
          by (simp_all add: failures_logged_append)
        with 2 show ?thesis unfolding pending_def by blast
      qed
    qed
    moreover from a b disj have "distinct (sites (a @ b))" "set (sites (a @ b)) \<subseteq> S \<union> T"
      by (auto simp: sites_append)
    ultimately show ?thesis by blast
  qed
qed

lemma settles_try_catch:
  assumes m: "emits m S"
    and h: "\<And>e tr. \<exists>v args. h e tr = (Inr v, tr @ [Logged ERROR args]) \<and> args \<noteq> []
              \<and> last args = JString (message e)"
  shows "settles (try_catch m h) S"
  unfolding settles_def
proof
  fix tr
  from m obtain r a where a: "m tr = (r, tr @ a)" "pending r a" "distinct (sites a)"
    "set (sites a) \<subseteq> S"
    unfolding emits_def by blast
  show "\<exists>v new. try_catch m h tr = (Inr v, tr @ new) \<and> failures_logged new \<and>
          distinct (sites new) \<and> set (sites new) \<subseteq> S"
  proof (cases r)
    case (Inr v)
    with a show ?thesis by (auto simp: try_catch_def pending_def)
  next
    case (Inl e)
    from h [of e "tr @ a"] obtain v args where
      hv: "h e (tr @ a) = (Inr v, (tr @ a) @ [Logged ERROR args])" "args \<noteq> []"
        "last args = JString (message e)"
      by blast
    with Inl a have res: "try_catch m h tr = (Inr v, tr @ (a @ [Logged ERROR args]))"
      by (simp add: try_catch_def)
    have "failures_logged (a @ [Logged ERROR args])"
    proof -
      from a(2) Inl consider "failures_logged a"
        | pre rq where "a = pre @ [Call rq (Some e)]" "failures_logged pre"
        unfolding pending_def by blast
      then show ?thesis
      proof cases
        case 1
        then show ?thesis by (simp add: failures_logged_append)
      next
        case 2
        with hv failures_logged_caught [of pre args e rq] show ?thesis by simp
      qed
    qed
    moreover from a have "distinct (sites (a @ [Logged ERROR args]))"
      "set (sites (a @ [Logged ERROR args])) \<subseteq> S"
      by (simp_all add: sites_append sites_simps)
    ultimately show ?thesis using res by blast
  qed
qed

lemma emits_if: "emits a S \<Longrightarrow> emits b S \<Longrightarrow> emits (if c then a else b) S"
  by simp

lemmas emits_rules = emits_await emits_call emits_logger emits_property_of emits_resolve

lemma settles_assignLabelToEmail: "settles (assignLabelToEmail this messageId labelId) {3}"
  unfolding assignLabelToEmail_def
  by (rule settles_try_catch, rule emits_mono) (rule emits_rules | simp add: logger_def)+

lemma settles_markEmailAsRead: "settles (markEmailAsRead this messageId) {4}"
  unfolding markEmailAsRead_def
  by (rule settles_try_catch, rule emits_mono) (rule emits_rules | simp add: logger_def)+

lemma settles_sendReplyEmail: "settles (sendReplyEmail this messageId emailData) {2}"
  unfolding sendReplyEmail_def Let_def
  by (rule settles_try_catch, rule emits_mono) (rule emits_rules | simp add: logger_def)+

lemma settles_getEmailData: "settles (getEmailData this messageId) {1}"
  unfolding getEmailData_def
  by (rule settles_try_catch, rule emits_mono)
     (rule emits_rules | simp add: logger_def await_def resolve_def)+

lemma emits_label_step:
  "emits (if truthy labelId then assignLabelToEmail this messageId labelId
          else logger WARN args) {3}"
  by (rule emits_if, rule settles_emits [OF settles_assignLabelToEmail],
      rule emits_mono [OF emits_logger]) simp

lemma settles_processIncomingEmail:
  "settles (processIncomingEmail this messageId emailData) {2, 3, 4, 6, 7, 8}"
  unfolding processIncomingEmail_def Let_def
  by (rule settles_try_catch, rule emits_mono)
     (rule emits_rules emits_label_step settles_emits [OF settles_sendReplyEmail]
        settles_emits [OF settles_markEmailAsRead] | simp add: logger_def)+

subsection \<open>A run of \<open>processIncomingEmail\<close> with a bound client\<close>

lemmas promise_defs = resolve_def reject_def await_def try_catch_def call_def logger_def property_of_def

lemma call_resolving:
  assumes "resolving f"
  shows "call rq (f x) tr = (Inr (projr (f x tr)), tr @ [Call rq None])"
proof -
  from assms obtain v where "f x tr = Inr v" unfolding resolving_def by blast
  then show ?thesis by (simp add: call_def)
qed

lemma assignLabelToEmail_bound:
  assumes "gmailClient this = Some gmail"
  shows "\<exists>new. assignLabelToEmail this messageId labelId tr = (Inr (), tr @ new) \<and>
           requests new = [Messages_modify (lit ''me'') messageId (AddLabelIds [labelId])]"
  using assms by (auto simp: assignLabelToEmail_def promise_defs split: sum.splits)

lemma markEmailAsRead_bound:
  assumes "gmailClient this = Some gmail"
  shows "\<exists>new. markEmailAsRead this messageId tr = (Inr (), tr @ new) \<and>
           requests new =
             [Messages_modify (lit ''me'') messageId (RemoveLabelIds [JString (lit ''UNREAD'')])]"
  using assms by (auto simp: markEmailAsRead_def promise_defs split: sum.splits)

lemma sendReplyEmail_bound:
  assumes "gmailClient this = Some gmail"
  shows "\<exists>new. sendReplyEmail this messageId emailData tr = (Inr (), tr @ new) \<and>
           requests new =
             [Messages_send (lit ''me'')
                (createReplyMessage (reply_to emailData) (reply_from emailData)
                   (reply_subject emailData) (reply_text emailData) messageId)]"
  using assms by (auto simp: sendReplyEmail_def promise_defs Let_def split: sum.splits)

lemma await_resolved: "m tr = (Inr v, tr') \<Longrightarrow> await m k tr = k v tr'"
  by (simp add: await_def)

lemma try_catch_resolved: "m tr = (Inr v, tr') \<Longrightarrow> try_catch m h tr = (Inr v, tr')"
  by (simp add: try_catch_def)

lemma processIncomingEmail_run:
  assumes bound: "gmailClient this = Some gmail"
    and a: "resolving (analyzeEmailContext (openaiService this))"
    and c: "resolving (categorizeEmailContent (openaiService this))"
    and g: "resolving (generateEmailReply (openaiService this))"
  shows "\<exists>pre post category replyContent.
     processIncomingEmail this messageId emailData tr =
       (Inr (), tr @ pre @ Call (GenerateEmailReply (emailContent emailData)) None # post) \<and>
     categorizeEmailContent (openaiService this) (emailContent emailData) (tr @ take 2 pre)
       = Inr category \<and>
     generateEmailReply (openaiService this) (emailContent emailData) (tr @ pre) = Inr replyContent \<and>
     requests pre =
       [AnalyzeEmailContext (emailContent emailData), CategorizeEmailContent (emailContent emailData)]
       @ (if truthy (or_null (labelMapping_get category))
          then [Messages_modify (lit ''me'') messageId (AddLabelIds [or_null (labelMapping_get category)])]
          else []) \<and>
     requests post =
       [Messages_send (lit ''me'')
          (createReplyMessage (to_addr emailData) (from_addr emailData) (subject emailData)
             replyContent messageId),
        Messages_modify (lit ''me'') messageId (RemoveLabelIds [JString (lit ''UNREAD'')])]"
proof -
  let ?text = "emailContent emailData"
  let ?oa = "openaiService this"
  obtain ctx where A: "analyzeEmailContext ?oa ?text tr = Inr ctx"
    using a unfolding resolving_def by blast
  define t1 where "t1 = tr @ [Call (AnalyzeEmailContext ?text) None]"
  define t2 where "t2 = t1 @ [Logged LOG [JString (lit ''Email Context:''), optional ctx]]"
  obtain category where C: "categorizeEmailContent ?oa ?text t2 = Inr category"
    using c unfolding resolving_def by blast
  define t3 where "t3 = t2 @ [Call (CategorizeEmailContent ?text) None]"
  define t4 where "t4 = t3 @ [Logged LOG [JString (lit ''Email Category:''), optional category]]"
  let ?labelId = "or_null (labelMapping_get category)"
  let ?label = "if truthy ?labelId then assignLabelToEmail this messageId ?labelId
     else logger WARN [JString (lit ''No label found for category: '' @ template (optional category))]"
  obtain n5 where L: "?label t4 = (Inr (), t4 @ n5)"
    "requests n5 = (if truthy ?labelId
       then [Messages_modify (lit ''me'') messageId (AddLabelIds [?labelId])] else [])"
  proof (cases "truthy ?labelId")
    case True
    with assignLabelToEmail_bound [OF bound, of messageId ?labelId t4] that
    show ?thesis by auto
  next
    case False
    with that [of "[Logged WARN [JString (lit ''No label found for category: '' @ template (optional category))]]"]
    show ?thesis by (simp add: logger_def)
  qed
  define t5 where "t5 = t4 @ n5"
  obtain replyContent where G: "generateEmailReply ?oa ?text t5 = Inr replyContent"
    using g unfolding resolving_def by blast
  define t6 where "t6 = t5 @ [Call (GenerateEmailReply ?text) None]"
  define t7 where "t7 = t6 @ [Logged LOG [JString (lit ''Generated Reply:''), optional replyContent]]"
  let ?reply = "\<lparr>reply_from = from_addr emailData, reply_to = to_addr emailData,
       reply_subject = subject emailData, reply_text = replyContent\<rparr>"
  obtain n8 where S: "sendReplyEmail this messageId ?reply t7 = (Inr (), t7 @ n8)"
    "requests n8 = [Messages_send (lit ''me'')
          (createReplyMessage (to_addr emailData) (from_addr emailData) (subject emailData)
             replyContent messageId)]"
    using sendReplyEmail_bound [OF bound, of messageId ?reply t7] by auto
  define t8 where "t8 = t7 @ n8"
  obtain n9 where M: "markEmailAsRead this messageId t8 = (Inr (), t8 @ n9)"
    "requests n9 = [Messages_modify (lit ''me'') messageId
                      (RemoveLabelIds [JString (lit ''UNREAD'')])]"
    using markEmailAsRead_bound [OF bound, of messageId t8] by auto
  have s1: "await (call (AnalyzeEmailContext ?text) (analyzeEmailContext ?oa ?text)) k tr = k ctx t1"
    for k :: "js_string option \<Rightarrow> unit promise"
    by (simp add: await_def call_def A t1_def)
  have s2: "await (logger LOG [JString (lit ''Email Context:''), optional ctx]) k t1 = k () t2"
    for k :: "unit \<Rightarrow> unit promise"
    by (simp add: await_def logger_def t2_def)
  have s3: "await (call (CategorizeEmailContent ?text) (categorizeEmailContent ?oa ?text)) k t2
              = k category t3"
    for k :: "js_string option \<Rightarrow> unit promise"
    by (simp add: await_def call_def C t3_def)
  have s4: "await (logger LOG [JString (lit ''Email Category:''), optional category]) k t3 = k () t4"
    for k :: "unit \<Rightarrow> unit promise"
    by (simp add: await_def logger_def t4_def)
  have s5: "await ?label k t4 = k () t5" for k :: "unit \<Rightarrow> unit promise"
    by (simp only: await_def L(1) t5_def prod.case sum.case)
  have s6: "await (call (GenerateEmailReply ?text) (generateEmailReply ?oa ?text)) k t5
              = k replyContent t6"
    for k :: "js_string option \<Rightarrow> unit promise"
    by (simp add: await_def call_def G t6_def)
  have s7: "await (logger LOG [JString (lit ''Generated Reply:''), optional replyContent]) k t6 = k () t7"
    for k :: "unit \<Rightarrow> unit promise"
    by (simp add: await_def logger_def t7_def)
  have s8: "await (sendReplyEmail this messageId ?reply) k t7 = k () t8"
    for k :: "unit \<Rightarrow> unit promise"
    by (simp only: await_def S(1) t8_def prod.case sum.case)
  have run: "processIncomingEmail this messageId emailData tr = (Inr (), t8 @ n9)"
    unfolding processIncomingEmail_def Let_def
    by (rule try_catch_resolved)
       (simp only: s1 s2 s3 s4 s5 s6 s7 s8 M(1))
  define pre where "pre = [Call (AnalyzeEmailContext ?text) None,
       Logged LOG [JString (lit ''Email Context:''), optional ctx],
       Call (CategorizeEmailContent ?text) None,
       Logged LOG [JString (lit ''Email Category:''), optional category]] @ n5"
  define post where
    "post = Logged LOG [JString (lit ''Generated Reply:''), optional replyContent] # n8 @ n9"
  have t5: "t5 = tr @ pre"
    by (simp add: pre_def t5_def t4_def t3_def t2_def t1_def)
  have "t8 @ n9 = tr @ pre @ Call (GenerateEmailReply ?text) None # post"
    by (simp add: pre_def post_def t8_def t7_def t6_def t5_def t4_def t3_def t2_def t1_def)
  with run have f1: "processIncomingEmail this messageId emailData tr =
       (Inr (), tr @ pre @ Call (GenerateEmailReply ?text) None # post)"
    by (simp only:)
  from G t5 have f2: "generateEmailReply ?oa ?text (tr @ pre) = Inr replyContent"
    by (simp only:)
  have f3: "requests pre =
       [AnalyzeEmailContext ?text, CategorizeEmailContent ?text]
       @ (if truthy ?labelId
          then [Messages_modify (lit ''me'') messageId (AddLabelIds [?labelId])]
          else [])"
    by (simp add: pre_def requests_append L(2))
  have f4: "requests post =
       [Messages_send (lit ''me'')
          (createReplyMessage (to_addr emailData) (from_addr emailData) (subject emailData)
             replyContent messageId),
        Messages_modify (lit ''me'') messageId (RemoveLabelIds [JString (lit ''UNREAD'')])]"
    by (simp add: post_def requests_append S(2) M(2))
  from C have f5: "categorizeEmailContent ?oa ?text (tr @ take 2 pre) = Inr category"
    by (simp add: pre_def t2_def t1_def)
  from f1 f5 f2 f3 f4 show ?thesis by blast
qed

subsection \<open>The runs of \<open>checkUnreadEmails\<close>\<close>

lemma for_of_calls:
  "for_of xs (\<lambda>x. call (rq x) (f x)) tr = (Inr (), tr @ map (\<lambda>x. Call (rq x) None) xs) \<or>
   (\<exists>k e. k < length xs \<and>
      for_of xs (\<lambda>x. call (rq x) (f x)) tr =
        (Inl e, tr @ map (\<lambda>x. Call (rq x) None) (take k xs) @ [Call (rq (xs ! k)) (Some e)]))"
proof (induction xs arbitrary: tr)
  case Nil
  show ?case by (simp add: resolve_def)
next
  case (Cons x xs)
  show ?case
  proof (cases "f x tr")
    case (Inl e)
    then have "for_of (x # xs) (\<lambda>x. call (rq x) (f x)) tr =
        (Inl e, tr @ map (\<lambda>x. Call (rq x) None) (take 0 (x # xs)) @ [Call (rq ((x # xs) ! 0)) (Some e)])"
      by (simp add: await_def call_def)
    then show ?thesis by blast
  next
    case (Inr v)
    then have step: "for_of (x # xs) (\<lambda>x. call (rq x) (f x)) tr =
        for_of xs (\<lambda>x. call (rq x) (f x)) (tr @ [Call (rq x) None])"
      by (simp add: await_def call_def)
    from Cons.IH [of "tr @ [Call (rq x) None]"] show ?thesis
    proof
      assume "for_of xs (\<lambda>x. call (rq x) (f x)) (tr @ [Call (rq x) None]) =
        (Inr (), (tr @ [Call (rq x) None]) @ map (\<lambda>x. Call (rq x) None) xs)"
      with step show ?thesis by simp
    next
      assume "\<exists>k e. k < length xs \<and>
        for_of xs (\<lambda>x. call (rq x) (f x)) (tr @ [Call (rq x) None]) =
          (Inl e, (tr @ [Call (rq x) None]) @ map (\<lambda>x. Call (rq x) None) (take k xs)
             @ [Call (rq (xs ! k)) (Some e)])"
      then obtain k e where k: "k < length xs"
        "for_of xs (\<lambda>x. call (rq x) (f x)) (tr @ [Call (rq x) None]) =
          (Inl e, (tr @ [Call (rq x) None]) @ map (\<lambda>x. Call (rq x) None) (take k xs)
             @ [Call (rq (xs ! k)) (Some e)])"
        by blast
      with step have "Suc k < length (x # xs)"
        "for_of (x # xs) (\<lambda>x. call (rq x) (f x)) tr =
          (Inl e, tr @ map (\<lambda>x. Call (rq x) None) (take (Suc k) (x # xs))
             @ [Call (rq ((x # xs) ! Suc k)) (Some e)])"
        by simp_all
      then show ?thesis by blast
    qed
  qed
qed

lemma for_of_accepted:
  assumes "\<And>x tr'. f x tr' = Inr ()"
  shows "for_of xs (\<lambda>x. call (rq x) (f x)) tr = (Inr (), tr @ map (\<lambda>x. Call (rq x) None) xs)"
proof (induction xs arbitrary: tr)
  case Nil
  show ?case by (simp add: resolve_def)
next
  case (Cons x xs)
  then show ?case
    by (simp add: await_def call_def assms)
qed

lemma requests_answered: "requests (map (\<lambda>x. Call (rq x) None) xs) = map rq xs"
  by (induction xs) simp_all

lemma failures_logged_answered:
  "failures_logged (map (\<lambda>x. Call (rq x) None) xs @ evs) = failures_logged evs"
  by (induction xs) simp_all

lemma no_retry_answered:
  "no_retry (map (\<lambda>x. Call (rq x) None) xs @ evs) = no_retry evs"
  by (induction xs) simp_all

lemma checkUnreadEmails_listed:
  assumes bound: "gmailClient this = Some gmail"
    and listing: "messages_list gmail (lit ''me'') (lit ''is:unread'') tr = Inr res"
  shows "checkUnreadEmails this tr =
      (Inr (), tr @ Call (Messages_list (lit ''me'') (lit ''is:unread'')) None
                 # map (\<lambda>m. Call (process_job m) None) (unread res)) \<or>
   (\<exists>k e. k < length (unread res) \<and> checkUnreadEmails this tr =
      (Inr (), tr @ Call (Messages_list (lit ''me'') (lit ''is:unread'')) None
                 # map (\<lambda>m. Call (process_job m) None) (take k (unread res))
                 @ [Call (process_job (unread res ! k)) (Some e),
                    Logged ERROR [JString (lit ''Error checking unread emails:''),
                                  JString (message e)]]))"
proof -
  let ?t = "tr @ [Call (Messages_list (lit ''me'') (lit ''is:unread'')) None]"
  let ?loop = "for_of (unread res) (\<lambda>m. call (process_job m)
     (queue_add (emailQueue this) (lit ''processEmail'') (MessageId (message_id m)) None))"
  from bound listing have body: "checkUnreadEmails this tr =
     try_catch (\<lambda>_. ?loop ?t)
       (\<lambda>error. logger ERROR [JString (lit ''Error checking unread emails:''),
                             JString (message error)]) tr"
    by (simp add: checkUnreadEmails_def try_catch_def await_def call_def unread_def
        process_job_def)
  from for_of_calls [of "unread res" process_job _ ?t] show ?thesis
  proof
    assume "?loop ?t = (Inr (), ?t @ map (\<lambda>m. Call (process_job m) None) (unread res))"
    with body have "checkUnreadEmails this tr =
      (Inr (), tr @ Call (Messages_list (lit ''me'') (lit ''is:unread'')) None
               # map (\<lambda>m. Call (process_job m) None) (unread res))"
      by (simp add: try_catch_def)
    then show ?thesis by blast
  next
    assume "\<exists>k e. k < length (unread res) \<and> ?loop ?t =
      (Inl e, ?t @ map (\<lambda>m. Call (process_job m) None) (take k (unread res))
         @ [Call (process_job (unread res ! k)) (Some e)])"
    then obtain k e where "k < length (unread res)" "?loop ?t =
      (Inl e, ?t @ map (\<lambda>m. Call (process_job m) None) (take k (unread res))
         @ [Call (process_job (unread res ! k)) (Some e)])"
      by blast
    with body have "k < length (unread res) \<and> checkUnreadEmails this tr =
      (Inr (), tr @ Call (Messages_list (lit ''me'') (lit ''is:unread'')) None
               # map (\<lambda>m. Call (process_job m) None) (take k (unread res))
               @ [Call (process_job (unread res ! k)) (Some e),
                  Logged ERROR [JString (lit ''Error checking unread emails:''),
                                JString (message e)]])"
      by (simp add: try_catch_def logger_def)
    then show ?thesis by blast
  qed
qed

lemma checkUnreadEmails_cases:
  "(gmailClient this = None \<and> checkUnreadEmails this tr = (Inr (), tr)) \<or>
   (\<exists>e. checkUnreadEmails this tr =
      (Inr (), tr @ [Call (Messages_list (lit ''me'') (lit ''is:unread'')) (Some e),
                     Logged ERROR [JString (lit ''Error checking unread emails:''),
                                   JString (message e)]])) \<or>
   (\<exists>ms. checkUnreadEmails this tr =
      (Inr (), tr @ Call (Messages_list (lit ''me'') (lit ''is:unread'')) None
                 # map (\<lambda>m. Call (process_job m) None) ms)) \<or>
   (\<exists>ms m e. checkUnreadEmails this tr =
      (Inr (), tr @ Call (Messages_list (lit ''me'') (lit ''is:unread'')) None
                 # map (\<lambda>m. Call (process_job m) None) ms
                 @ [Call (process_job m) (Some e),
                    Logged ERROR [JString (lit ''Error checking unread emails:''),
                                  JString (message e)]]))"
proof (cases "gmailClient this")
  case None
  then show ?thesis
    by (simp add: checkUnreadEmails_def try_catch_def resolve_def)
next
  case (Some gmail)
  show ?thesis
  proof (cases "messages_list gmail (lit ''me'') (lit ''is:unread'') tr")
    case (Inl e)
    with Some have "checkUnreadEmails this tr =
      (Inr (), tr @ [Call (Messages_list (lit ''me'') (lit ''is:unread'')) (Some e),
                     Logged ERROR [JString (lit ''Error checking unread emails:''),
                                   JString (message e)]])"
      by (simp add: checkUnreadEmails_def promise_defs)
    then show ?thesis by blast
  next
    case (Inr res)
    from checkUnreadEmails_listed [OF Some Inr] show ?thesis by blast
  qed
qed

subsection \<open>The jobs among the events\<close>

lemma added_Cons:
  "added (Call rq outcome # evs) = (case job_of rq of None \<Rightarrow> added evs | Some j \<Rightarrow> j # added evs)"
  "added (Logged lv args # evs) = added evs"
  "added [] = []"
  by (simp_all add: added_def List.map_filter_simps split: option.split)

lemma added_append: "added (a @ b) = added a @ added b"
  by (simp add: added_def requests_append List.map_filter_def)

lemma added_process_jobs:
  "added (map (\<lambda>m. Call (process_job m) None) ms) =
     map (\<lambda>m. (lit ''processEmail'', MessageId (message_id m), None)) ms"
  by (induction ms) (simp_all add: added_Cons process_job_def)

lemma answered_append: "answered (a @ b) = answered a @ answered b"
  by (induction a rule: answered.induct) simp_all

lemma enqueued_Cons:
  "enqueued (Call rq None # evs) = (case job_of rq of None \<Rightarrow> enqueued evs | Some j \<Rightarrow> j # enqueued evs)"
  "enqueued (Call rq (Some e) # evs) = enqueued evs"
  "enqueued (Logged lv args # evs) = enqueued evs"
  "enqueued [] = []"
  by (simp_all add: enqueued_def List.map_filter_simps split: option.split)

lemma enqueued_append: "enqueued (a @ b) = enqueued a @ enqueued b"
  by (simp add: enqueued_def answered_append List.map_filter_def)

lemma enqueued_process_jobs:
  "enqueued (map (\<lambda>m. Call (process_job m) None) ms) =
     map (\<lambda>m. (lit ''processEmail'', MessageId (message_id m), None)) ms"
  by (induction ms) (simp_all add: enqueued_Cons process_job_def)

subsection \<open>What the requests of an operation look like\<close>

lemma sends_only_resolve: "sends_only (resolve v) P"
  by (simp add: sends_only_def resolve_def)

lemma sends_only_reject: "sends_only (reject e) P"
  by (simp add: sends_only_def reject_def)

lemma sends_only_logger: "sends_only (logger lv args) P"
  by (simp add: sends_only_def logger_def)

lemma sends_only_property_of: "sends_only (property_of obj nm) P"
  by (cases obj) (simp_all add: property_of_def sends_only_resolve sends_only_reject)

lemma sends_only_call: "P rq \<Longrightarrow> sends_only (call rq f) P"
  by (auto simp: sends_only_def call_def split: sum.splits)

lemma sends_only_if:
  "sends_only a P \<Longrightarrow> sends_only b P \<Longrightarrow> sends_only (if c then a else b) P"
  by simp

lemma sends_only_await:
  assumes m: "sends_only m P" and k: "\<And>v. sends_only (k v) P"
  shows "sends_only (await m k) P"
  unfolding sends_only_def
proof
  fix tr
  from m obtain r a where a: "m tr = (r, tr @ a)" "list_all P (requests a)"
    unfolding sends_only_def by blast
  show "\<exists>r new. await m k tr = (r, tr @ new) \<and> list_all P (requests new)"
  proof (cases r)
    case (Inl e)
    with a show ?thesis by (auto simp: await_def)
  next
    case (Inr v)
    from k [of v] obtain r' b where b: "k v (tr @ a) = (r', (tr @ a) @ b)"
      "list_all P (requests b)"
      unfolding sends_only_def by blast
    with Inr a have "await m k tr = (r', tr @ (a @ b))" "list_all P (requests (a @ b))"
      by (simp_all add: await_def requests_append)
    then show ?thesis by blast
  qed
qed

lemma sends_only_try_catch:
  assumes m: "sends_only m P" and h: "\<And>e. sends_only (h e) P"
  shows "sends_only (try_catch m h) P"
  unfolding sends_only_def
proof
  fix tr
  from m obtain r a where a: "m tr = (r, tr @ a)" "list_all P (requests a)"
    unfolding sends_only_def by blast
  show "\<exists>r new. try_catch m h tr = (r, tr @ new) \<and> list_all P (requests new)"
  proof (cases r)
    case (Inr v)
    with a show ?thesis by (auto simp: try_catch_def)
  next
    case (Inl e)
    from h [of e] obtain r' b where b: "h e (tr @ a) = (r', (tr @ a) @ b)"
      "list_all P (requests b)"
      unfolding sends_only_def by blast
    with Inl a have "try_catch m h tr = (r', tr @ (a @ b))" "list_all P (requests (a @ b))"
      by (simp_all add: try_catch_def requests_append)
    then show ?thesis by blast
  qed
qed

lemmas sends_only_rules = sends_only_try_catch sends_only_await sends_only_call sends_only_logger
  sends_only_property_of sends_only_resolve sends_only_if

lemma sends_only_processIncomingEmail:
  assumes send: "\<And>text. P (Messages_send (lit ''me'')
        (createReplyMessage (to_addr emailData) (from_addr emailData) (subject emailData)
           text messageId))"
    and add: "\<And>labelId. P (Messages_modify (lit ''me'') messageId (AddLabelIds [labelId]))"
    and remove: "P (Messages_modify (lit ''me'') messageId (RemoveLabelIds [JString (lit ''UNREAD'')]))"
    and openai: "P (AnalyzeEmailContext (emailContent emailData))"
      "P (CategorizeEmailContent (emailContent emailData))"
      "P (GenerateEmailReply (emailContent emailData))"
  shows "sends_only (processIncomingEmail this messageId emailData) P"
  unfolding processIncomingEmail_def assignLabelToEmail_def sendReplyEmail_def
    markEmailAsRead_def Let_def
  by (rule sends_only_rules | simp add: assms)+

lemma sends_only_getEmailData:
  assumes "P (Messages_get (lit ''me'') messageId)"
  shows "sends_only (getEmailData this messageId) P"
  unfolding getEmailData_def
  by (rule sends_only_rules | simp add: assms)+

lemma added_none:
  "list_all (\<lambda>rq. job_of rq = None) (requests evs) \<Longrightarrow> added evs = []"
  by (induction evs rule: requests.induct) (simp_all add: added_Cons)

subsection \<open>Unfolding the examples\<close>

lemmas example_defs = offline_service_def example_service_def throwing_gmail_def
  answering_gmail_def accepting_queue_def answering_openai_def throwing_openai_def

lemmas spec_defs = spec_OpenaiService_def caught_def silent_provider_def

lemmas service_defs = processIncomingEmail_def assignLabelToEmail_def sendReplyEmail_def
  markEmailAsRead_def labelMapping_get_def labelMapping_def Object_prototype_def or_null_def
  optional_def
text \<open>
  Claim C1, for strings without unpaired surrogates. For every from \<open>a\<close>, to \<open>b\<close>, subject
  \<open>S\<close>, text \<open>T\<close> and message id \<open>M\<close> that are well formed, base64url-decoding the string
  \<open>createReplyMessage\<close> returns and reading the bytes as UTF-8 gives back the block
  "From: a", "To: b", "Subject: Re: S", "In-Reply-To: M", "References: M", an empty line and
  \<open>T\<close>, joined by newlines. For all strings it gives back that block with U+FFFD in the
  place of each unpaired surrogate, and the returned string holds no \<^verbatim>\<open>+\<close> (0x2B), no
  \<^verbatim>\<open>/\<close> (0x2F) and does not end with \<^verbatim>\<open>=\<close> (0x3D).
\<close>

theorem createReplyMessage_decodes:
  "(well_formed a \<and> well_formed b \<and> well_formed S \<and> well_formed T \<and> well_formed M \<longrightarrow>
      Option.bind (base64url_decode (createReplyMessage a b S (Some T) M)) utf8_decode =
        Some (lit ''From: '' @ a @ [0x0A] @ lit ''To: '' @ b @ [0x0A]
          @ lit ''Subject: Re: '' @ S @ [0x0A] @ lit ''In-Reply-To: '' @ M @ [0x0A]
          @ lit ''References: '' @ M @ [0x0A] @ [0x0A] @ T))
   \<and> Option.bind (base64url_decode (createReplyMessage a b S (Some T) M)) utf8_decode =
        Some (toWellFormed (lit ''From: '' @ a @ [0x0A] @ lit ''To: '' @ b @ [0x0A]
          @ lit ''Subject: Re: '' @ S @ [0x0A] @ lit ''In-Reply-To: '' @ M @ [0x0A]
          @ lit ''References: '' @ M @ [0x0A] @ [0x0A] @ T))
   \<and> 0x2B \<notin> set (createReplyMessage a b S (Some T) M)
   \<and> 0x2F \<notin> set (createReplyMessage a b S (Some T) M)
   \<and> \<not> ends_with 0x3D (createReplyMessage a b S (Some T) M)"
proof -
  let ?block = "lit ''From: '' @ a @ [0x0A] @ lit ''To: '' @ b @ [0x0A]
          @ lit ''Subject: Re: '' @ S @ [0x0A] @ lit ''In-Reply-To: '' @ M @ [0x0A]
          @ lit ''References: '' @ M @ [0x0A] @ [0x0A] @ T"
  have general: "Option.bind (base64url_decode (createReplyMessage a b S (Some T) M)) utf8_decode =
      Some (toWellFormed ?block)"
    using createReplyMessage_utf8 [of a b S "Some T" M] by (simp only: option.case)
  have exact: "Option.bind (base64url_decode (createReplyMessage a b S (Some T) M)) utf8_decode =
      Some ?block"
    if "well_formed a \<and> well_formed b \<and> well_formed S \<and> well_formed T \<and> well_formed M"
  proof -
    from that have "well_formed ?block"
      by (intro well_formed_block) simp_all
    then have "toWellFormed ?block = ?block"
      by (rule toWellFormed_well_formed)
    with general show ?thesis
      by (simp only:)
  qed
  from exact general createReplyMessage_alphabet [of a b S "Some T" M] show ?thesis
    by (intro conjI impI)
qed

text \<open>The example of the spec: from "a", to "b", subject "S", text "T", message id "M".\<close>

theorem createReplyMessage_decodes_witness:
  "well_formed (lit ''a'') \<and> well_formed (lit ''b'') \<and> well_formed (lit ''S'')
   \<and> well_formed (lit ''T'') \<and> well_formed (lit ''M'')
   \<and> Option.bind (base64url_decode
       (lit ''RnJvbTogYQpUbzogYgpTdWJqZWN0OiBSZTogUwpJbi1SZXBseS1UbzogTQpSZWZlcmVuY2VzOiBNCgpU''))
       utf8_decode =
     Some (lit ''From: a'' @ [0x0A] @ lit ''To: b'' @ [0x0A] @ lit ''Subject: Re: S''
        @ [0x0A] @ lit ''In-Reply-To: M'' @ [0x0A] @ lit ''References: M'' @ [0x0A] @ [0x0A]
        @ lit ''T'')"
proof -
  have wf: "well_formed (lit ''a'') \<and> well_formed (lit ''b'') \<and> well_formed (lit ''S'')
     \<and> well_formed (lit ''T'') \<and> well_formed (lit ''M'')"
    by (simp add: lit_def is_high_surrogate_def is_low_surrogate_def)
  from createReplyMessage_decodes [of "lit ''a''" "lit ''b''" "lit ''S''" "lit ''T''" "lit ''M''"]
  have "well_formed (lit ''a'') \<and> well_formed (lit ''b'') \<and> well_formed (lit ''S'')
     \<and> well_formed (lit ''T'') \<and> well_formed (lit ''M'') \<longrightarrow>
     Option.bind (base64url_decode
       (createReplyMessage (lit ''a'') (lit ''b'') (lit ''S'') (Some (lit ''T'')) (lit ''M'')))
       utf8_decode =
     Some (lit ''From: '' @ lit ''a'' @ [0x0A] @ lit ''To: '' @ lit ''b'' @ [0x0A]
       @ lit ''Subject: Re: '' @ lit ''S'' @ [0x0A] @ lit ''In-Reply-To: '' @ lit ''M'' @ [0x0A]
       @ lit ''References: '' @ lit ''M'' @ [0x0A] @ [0x0A] @ lit ''T'')"
    by (rule conjunct1)
  then have "well_formed (lit ''a'') \<and> well_formed (lit ''b'') \<and> well_formed (lit ''S'')
     \<and> well_formed (lit ''T'') \<and> well_formed (lit ''M'') \<longrightarrow>
     Option.bind (base64url_decode
       (lit ''RnJvbTogYQpUbzogYgpTdWJqZWN0OiBSZTogUwpJbi1SZXBseS1UbzogTQpSZWZlcmVuY2VzOiBNCgpU''))
       utf8_decode =
     Some (lit ''From: a'' @ [0x0A] @ lit ''To: b'' @ [0x0A] @ lit ''Subject: Re: S''
        @ [0x0A] @ lit ''In-Reply-To: M'' @ [0x0A] @ lit ''References: M'' @ [0x0A] @ [0x0A]
        @ lit ''T'')"
    by (simp only: example_reply example_block)
  with wf show ?thesis
    by blast
qed

text \<open>
  The claim as the spec states it, for every text, fails on a text that holds an unpaired
  surrogate: \<^verbatim>\<open>Buffer.from\<close> encodes the lone code unit 0xD800 as U+FFFD, so the decoded
  block ends with U+FFFD and not with the text, and the reply is the same string as the
  reply to the text U+FFFD.
\<close>

theorem unpaired_surrogate_counterexample:
  "Option.bind (base64url_decode
      (createReplyMessage (lit ''a'') (lit ''b'') (lit ''S'') (Some [0xD800]) (lit ''M'')))
      utf8_decode =
     Some (lit ''From: a'' @ [0x0A] @ lit ''To: b'' @ [0x0A] @ lit ''Subject: Re: S''
        @ [0x0A] @ lit ''In-Reply-To: M'' @ [0x0A] @ lit ''References: M'' @ [0x0A] @ [0x0A]
        @ [0xFFFD])
   \<and> Option.bind (base64url_decode
      (createReplyMessage (lit ''a'') (lit ''b'') (lit ''S'') (Some [0xD800]) (lit ''M'')))
      utf8_decode \<noteq>
     Some (lit ''From: a'' @ [0x0A] @ lit ''To: b'' @ [0x0A] @ lit ''Subject: Re: S''
        @ [0x0A] @ lit ''In-Reply-To: M'' @ [0x0A] @ lit ''References: M'' @ [0x0A] @ [0x0A]
        @ [0xD800])
   \<and> createReplyMessage (lit ''a'') (lit ''b'') (lit ''S'') (Some [0xD800]) (lit ''M'') =
     createReplyMessage (lit ''a'') (lit ''b'') (lit ''S'') (Some [0xFFFD]) (lit ''M'')"
proof -
  have enc1: "createReplyMessage (lit ''a'') (lit ''b'') (lit ''S'') (Some [0xD800]) (lit ''M'') =
     lit ''RnJvbTogYQpUbzogYgpTdWJqZWN0OiBSZTogUwpJbi1SZXBseS1UbzogTQpSZWZlcmVuY2VzOiBNCgrvv70''"
    by (simp add: createReplyMessage_def lit_def utf8_bytes_def is_high_surrogate_def
      is_low_surrogate_def base64_char_def base64_alphabet_def pad_char_def
      replace_all_def replace_trailing_def replacement_character_def)
  have enc2: "createReplyMessage (lit ''a'') (lit ''b'') (lit ''S'') (Some [0xFFFD]) (lit ''M'') =
     lit ''RnJvbTogYQpUbzogYgpTdWJqZWN0OiBSZTogUwpJbi1SZXBseS1UbzogTQpSZWZlcmVuY2VzOiBNCgrvv70''"
    by (simp add: createReplyMessage_def lit_def utf8_bytes_def is_high_surrogate_def
      is_low_surrogate_def base64_char_def base64_alphabet_def pad_char_def
      replace_all_def replace_trailing_def replacement_character_def)
  have "toWellFormed (lit ''From: '' @ lit ''a'' @ [0x0A] @ lit ''To: '' @ lit ''b'' @ [0x0A]
       @ lit ''Subject: Re: '' @ lit ''S'' @ [0x0A] @ lit ''In-Reply-To: '' @ lit ''M'' @ [0x0A]
       @ lit ''References: '' @ lit ''M'' @ [0x0A] @ [0x0A] @ [0xD800]) =
     lit ''From: a'' @ [0x0A] @ lit ''To: b'' @ [0x0A] @ lit ''Subject: Re: S''
        @ [0x0A] @ lit ''In-Reply-To: M'' @ [0x0A] @ lit ''References: M'' @ [0x0A] @ [0x0A]
        @ [0xFFFD]"
    by (simp add: lit_def is_high_surrogate_def is_low_surrogate_def)
  with createReplyMessage_utf8 [of "lit ''a''" "lit ''b''" "lit ''S''" "Some [0xD800]" "lit ''M''"]
  have dec: "Option.bind (base64url_decode
      (createReplyMessage (lit ''a'') (lit ''b'') (lit ''S'') (Some [0xD800]) (lit ''M'')))
      utf8_decode =
     Some (lit ''From: a'' @ [0x0A] @ lit ''To: b'' @ [0x0A] @ lit ''Subject: Re: S''
        @ [0x0A] @ lit ''In-Reply-To: M'' @ [0x0A] @ lit ''References: M'' @ [0x0A] @ [0x0A]
        @ [0xFFFD])"
    by (simp only: option.case)
  have differ: "Some (lit ''From: a'' @ [0x0A] @ lit ''To: b'' @ [0x0A] @ lit ''Subject: Re: S''
        @ [0x0A] @ lit ''In-Reply-To: M'' @ [0x0A] @ lit ''References: M'' @ [0x0A] @ [0x0A]
        @ [0xFFFD]) \<noteq>
     Some (lit ''From: a'' @ [0x0A] @ lit ''To: b'' @ [0x0A] @ lit ''Subject: Re: S''
        @ [0x0A] @ lit ''In-Reply-To: M'' @ [0x0A] @ lit ''References: M'' @ [0x0A] @ [0x0A]
        @ [0xD800::code_unit])"
    by simp
  from enc1 enc2 have same:
    "createReplyMessage (lit ''a'') (lit ''b'') (lit ''S'') (Some [0xD800]) (lit ''M'') =
     createReplyMessage (lit ''a'') (lit ''b'') (lit ''S'') (Some [0xFFFD]) (lit ''M'')"
    by (rule trans_sym)
  have "Option.bind (base64url_decode
      (createReplyMessage (lit ''a'') (lit ''b'') (lit ''S'') (Some [0xD800]) (lit ''M'')))
      utf8_decode \<noteq>
     Some (lit ''From: a'' @ [0x0A] @ lit ''To: b'' @ [0x0A] @ lit ''Subject: Re: S''
        @ [0x0A] @ lit ''In-Reply-To: M'' @ [0x0A] @ lit ''References: M'' @ [0x0A] @ [0x0A]
        @ [0xD800])"
    unfolding dec by (rule differ)
  with dec same show ?thesis
    by (intro conjI)
qed


section \<open>Polling for unread messages\<close>

text \<open>
  Claim C7. When no mail-provider session has been bound (\<open>gmailClient\<close> is still
  undefined, as the constructor leaves it), \<open>checkUnreadEmails\<close> resolves at once: it
  adds no event, so it calls no provider, enqueues no task and logs no error.
\<close>

theorem checkUnreadEmails_unbound:
  "gmailClient this = None \<Longrightarrow> checkUnreadEmails this tr = (Inr (), tr)"
  by (simp add: checkUnreadEmails_def try_catch_def resolve_def)

text \<open>A service as the constructor leaves it, whose queue would refuse every job.\<close>

theorem checkUnreadEmails_unbound_witness:
  "gmailClient (fresh_service (Error (lit ''down''))) = None \<and>
   checkUnreadEmails (fresh_service (Error (lit ''down''))) [] = (Inr (), [])"
proof -
  have h: "gmailClient (fresh_service (Error (lit ''down''))) = None"
    by (simp add: fresh_service_def new_EmailService_def)
  from h checkUnreadEmails_unbound [OF h, of "[]"] show ?thesis by simp
qed

text \<open>
  Claim C5. When the session is bound and the provider answers the listing with the
  messages \<open>ms\<close>, \<open>checkUnreadEmails\<close> resolves, and the jobs it has enqueued are, in the
  order of the listing, one job per message for the first \<open>k\<close> messages, each named
  \<^verbatim>\<open>processEmail\<close> and carrying that message's id as \<open>messageId\<close>. When the queue
  accepts every job, \<open>k\<close> is the number of messages: exactly one job per listed message,
  as many jobs as messages, and distinct jobs when the ids are distinct. (The loop stops
  at the first job the queue refuses.)
\<close>

theorem checkUnreadEmails_enqueues:
  assumes "gmailClient this = Some gmail"
    and "messages_list gmail (lit ''me'') (lit ''is:unread'') tr = Inr res"
    and "messages res = Some ms"
  shows "\<exists>new k. checkUnreadEmails this tr = (Inr (), tr @ new) \<and> k \<le> length ms \<and>
           enqueued new =
             map (\<lambda>m. (lit ''processEmail'', MessageId (message_id m), None)) (take k ms) \<and>
           ((\<forall>nm job_data opts tr'. queue_add (emailQueue this) nm job_data opts tr' = Inr ()) \<longrightarrow>
              enqueued new = map (\<lambda>m. (lit ''processEmail'', MessageId (message_id m), None)) ms \<and>
              length (enqueued new) = length ms \<and>
              (distinct (map message_id ms) \<longrightarrow> distinct (enqueued new)))"
proof -
  let ?job = "\<lambda>m. (lit ''processEmail'', MessageId (message_id m), None :: nat option)"
  let ?full = "Call (Messages_list (lit ''me'') (lit ''is:unread'')) None
                # map (\<lambda>m. Call (process_job m) None) ms"
  from assms(3) have ms: "unread res = ms"
    by (simp add: unread_def)
  have full: "enqueued ?full = map ?job ms"
    by (simp add: enqueued_Cons enqueued_process_jobs)
  have accepted: "checkUnreadEmails this tr = (Inr (), tr @ ?full)"
    if "\<forall>nm job_data opts tr'. queue_add (emailQueue this) nm job_data opts tr' = Inr ()"
  proof -
    have "for_of ms (\<lambda>m. call (process_job m)
         (queue_add (emailQueue this) (lit ''processEmail'') (MessageId (message_id m)) None)) tr'
       = (Inr (), tr' @ map (\<lambda>m. Call (process_job m) None) ms)" for tr'
      by (rule for_of_accepted) (simp add: that)
    with assms show ?thesis
      by (simp add: checkUnreadEmails_def try_catch_def await_def call_def process_job_def)
  qed
  have distinct_jobs: "distinct (map ?job ms)" if "distinct (map message_id ms)"
  proof -
    have "inj_on ?job (set ms)"
      using that by (auto simp: inj_on_def distinct_map)
    with that show ?thesis
      by (simp add: distinct_map)
  qed
  have "\<exists>new k. checkUnreadEmails this tr = (Inr (), tr @ new) \<and> k \<le> length ms \<and>
           enqueued new = map ?job (take k ms)"
    using checkUnreadEmails_listed [OF assms(1,2)] unfolding ms
  proof (elim disjE exE conjE)
    assume "checkUnreadEmails this tr = (Inr (), tr @ ?full)"
    with full have "checkUnreadEmails this tr = (Inr (), tr @ ?full) \<and>
        length ms \<le> length ms \<and> enqueued ?full = map ?job (take (length ms) ms)"
      by simp
    then show ?thesis by (intro exI)
  next
    fix k e
    let ?part = "Call (Messages_list (lit ''me'') (lit ''is:unread'')) None
                 # map (\<lambda>m. Call (process_job m) None) (take k ms)
                 @ [Call (process_job (ms ! k)) (Some e),
                    Logged ERROR [JString (lit ''Error checking unread emails:''),
                                  JString (message e)]]"
    assume k: "k < length ms" and run: "checkUnreadEmails this tr = (Inr (), tr @ ?part)"
    have "enqueued ?part = map ?job (take k ms)"
      by (simp add: enqueued_Cons enqueued_append enqueued_process_jobs)
    with k run have "checkUnreadEmails this tr = (Inr (), tr @ ?part) \<and>
        k \<le> length ms \<and> enqueued ?part = map ?job (take k ms)"
      by simp
    then show ?thesis by (intro exI)
  qed
  then obtain new k where run: "checkUnreadEmails this tr = (Inr (), tr @ new)" "k \<le> length ms"
    "enqueued new = map ?job (take k ms)"
    by blast
  have "enqueued new = map ?job ms \<and> length (enqueued new) = length ms \<and>
          (distinct (map message_id ms) \<longrightarrow> distinct (enqueued new))"
    if "\<forall>nm job_data opts tr'. queue_add (emailQueue this) nm job_data opts tr' = Inr ()"
  proof -
    from accepted [OF that] run(1) have "new = ?full" by simp
    with full distinct_jobs show ?thesis by simp
  qed
  with run show ?thesis by blast
qed

text \<open>Three unread messages with the ids m1, m2 and m3: three jobs, one per id.\<close>

theorem checkUnreadEmails_enqueues_witness:
  "\<exists>new. checkUnreadEmails
       (example_service (Some three_unread) (unread_message (lit ''m1''))
          (throwing_openai (Error (lit ''down'')))) [] = (Inr (), [] @ new) \<and>
     enqueued new =
       [(lit ''processEmail'', MessageId (Some (lit ''m1'')), None),
        (lit ''processEmail'', MessageId (Some (lit ''m2'')), None),
        (lit ''processEmail'', MessageId (Some (lit ''m3'')), None)] \<and>
     length (enqueued new) = 3 \<and> distinct (enqueued new)"
proof -
  let ?gmail = "answering_gmail (Some three_unread) (unread_message (lit ''m1''))"
  let ?svc = "example_service (Some three_unread) (unread_message (lit ''m1''))
          (throwing_openai (Error (lit ''down'')))"
  have 1: "gmailClient ?svc = Some ?gmail"
    by (simp add: example_service_def)
  have 2: "messages_list ?gmail (lit ''me'') (lit ''is:unread'') [] = Inr \<lparr>messages = Some three_unread\<rparr>"
    by (simp add: answering_gmail_def)
  have 3: "messages \<lparr>messages = Some three_unread\<rparr> = Some three_unread"
    by simp
  have 4: "\<forall>nm job_data opts tr'. queue_add (emailQueue ?svc) nm job_data opts tr' = Inr ()"
    by (simp add: example_service_def accepting_queue_def)
  have 5: "distinct (map message_id three_unread)"
    by (simp add: three_unread_def unread_message_def lit_def)
  from checkUnreadEmails_enqueues [OF 1 2 3]
  obtain new where run: "checkUnreadEmails ?svc [] = (Inr (), [] @ new)"
    and jobs: "(\<forall>nm job_data opts tr'. queue_add (emailQueue ?svc) nm job_data opts tr' = Inr ()) \<longrightarrow>
       enqueued new =
         map (\<lambda>m. (lit ''processEmail'', MessageId (message_id m), None)) three_unread \<and>
       length (enqueued new) = length three_unread \<and>
       (distinct (map message_id three_unread) \<longrightarrow> distinct (enqueued new))"
    by (elim exE conjE)
  from jobs 4 have "enqueued new =
         map (\<lambda>m. (lit ''processEmail'', MessageId (message_id m), None)) three_unread \<and>
       length (enqueued new) = length three_unread \<and>
       (distinct (map message_id three_unread) \<longrightarrow> distinct (enqueued new))"
    by (rule mp)
  with 5 have "enqueued new =
         map (\<lambda>m. (lit ''processEmail'', MessageId (message_id m), None)) three_unread"
    "length (enqueued new) = length three_unread" "distinct (enqueued new)"
    by blast+
  with run have "checkUnreadEmails ?svc [] = (Inr (), [] @ new) \<and>
     enqueued new =
       [(lit ''processEmail'', MessageId (Some (lit ''m1'')), None),
        (lit ''processEmail'', MessageId (Some (lit ''m2'')), None),
        (lit ''processEmail'', MessageId (Some (lit ''m3'')), None)] \<and>
     length (enqueued new) = 3 \<and> distinct (enqueued new)"
    by (simp add: three_unread_def unread_message_def)
  then show ?thesis by (rule exI)
qed

text \<open>
  Claim C6, with the names the code uses. The service passes the queue jobs of exactly two
  kinds: \<open>scheduleEmailChecking\<close> adds one job named \<^verbatim>\<open>checkUnreadEmails\<close> with the data
  \<^verbatim>\<open>{}\<close> and a delay of 60000 milliseconds, and every job \<open>checkUnreadEmails\<close> adds is named
  \<^verbatim>\<open>processEmail\<close>, carries \<^verbatim>\<open>{ messageId }\<close> and has no options; \<open>getEmailData\<close> and
  \<open>processIncomingEmail\<close> add none.
\<close>

theorem added_jobs:
  "(\<exists>r outcome. scheduleEmailChecking this tr =
       (r, tr @ [Call (Queue_add (lit ''checkUnreadEmails'') NoData (Some 60000)) outcome]))
   \<and> (\<exists>new. checkUnreadEmails this tr = (Inr (), tr @ new) \<and>
         list_all (\<lambda>job. \<exists>messageId. job = (lit ''processEmail'', MessageId messageId, None))
           (added new))
   \<and> (\<exists>r new. getEmailData this messageId tr = (r, tr @ new) \<and> added new = [])
   \<and> (\<exists>r new. processIncomingEmail this messageId emailData tr = (r, tr @ new) \<and>
         added new = [])"
proof (intro conjI)
  show "\<exists>r outcome. scheduleEmailChecking this tr =
       (r, tr @ [Call (Queue_add (lit ''checkUnreadEmails'') NoData (Some 60000)) outcome])"
    by (auto simp: scheduleEmailChecking_def call_def split: sum.splits)
  have jobs: "list_all (\<lambda>job. \<exists>messageId. job = (lit ''processEmail'', MessageId messageId, None))
           (added (map (\<lambda>m. Call (process_job m) None) ms))" for ms
    by (simp add: added_process_jobs list_all_iff)
  from checkUnreadEmails_cases [of this tr]
  show "\<exists>new. checkUnreadEmails this tr = (Inr (), tr @ new) \<and>
         list_all (\<lambda>job. \<exists>messageId. job = (lit ''processEmail'', MessageId messageId, None))
           (added new)"
  proof (elim disjE exE conjE)
    assume "checkUnreadEmails this tr = (Inr (), tr)"
    then have "checkUnreadEmails this tr = (Inr (), tr @ []) \<and>
        list_all (\<lambda>job. \<exists>messageId. job = (lit ''processEmail'', MessageId messageId, None))
          (added [])"
      by (simp add: added_Cons)
    then show ?thesis by (rule exI)
  next
    fix e
    assume "checkUnreadEmails this tr =
      (Inr (), tr @ [Call (Messages_list (lit ''me'') (lit ''is:unread'')) (Some e),
                     Logged ERROR [JString (lit ''Error checking unread emails:''),
                                   JString (message e)]])"
    then show ?thesis by (auto simp: added_Cons)
  next
    fix ms
    assume "checkUnreadEmails this tr =
      (Inr (), tr @ Call (Messages_list (lit ''me'') (lit ''is:unread'')) None
                 # map (\<lambda>m. Call (process_job m) None) ms)"
    with jobs [of ms] show ?thesis by (auto simp: added_Cons)
  next
    fix ms m e
    assume "checkUnreadEmails this tr =
      (Inr (), tr @ Call (Messages_list (lit ''me'') (lit ''is:unread'')) None
                 # map (\<lambda>m. Call (process_job m) None) ms
                 @ [Call (process_job m) (Some e),
                    Logged ERROR [JString (lit ''Error checking unread emails:''),
                                  JString (message e)]])"
    with jobs [of ms] show ?thesis
      by (auto simp: added_Cons added_append process_job_def)
  qed
  have "sends_only (getEmailData this messageId) (\<lambda>rq. job_of rq = None)"
    by (rule sends_only_getEmailData) simp
  then obtain r new where "getEmailData this messageId tr = (r, tr @ new)"
    "list_all (\<lambda>rq. job_of rq = None) (requests new)"
    unfolding sends_only_def by blast
  with added_none [of new]
  show "\<exists>r new. getEmailData this messageId tr = (r, tr @ new) \<and> added new = []"
    by blast
  have "sends_only (processIncomingEmail this messageId emailData) (\<lambda>rq. job_of rq = None)"
    by (rule sends_only_processIncomingEmail) simp_all
  then obtain r new where "processIncomingEmail this messageId emailData tr = (r, tr @ new)"
    "list_all (\<lambda>rq. job_of rq = None) (requests new)"
    unfolding sends_only_def by blast
  with added_none [of new]
  show "\<exists>r new. processIncomingEmail this messageId emailData tr = (r, tr @ new) \<and>
         added new = []"
    by blast
qed

text \<open>
  The names the spec gives, "check-unread" and "process-email", are not the ones the code
  passes to the queue: the job \<open>scheduleEmailChecking\<close> adds is named
  \<^verbatim>\<open>checkUnreadEmails\<close>.
\<close>

theorem task_names_counterexample:
  "added (snd (scheduleEmailChecking (fresh_service (Error (lit ''down''))) [])) =
     [(lit ''checkUnreadEmails'', NoData, Some 60000)]
   \<and> lit ''checkUnreadEmails'' \<noteq> lit ''check-unread''
   \<and> lit ''checkUnreadEmails'' \<noteq> lit ''process-email''"
  by (simp add: scheduleEmailChecking_def call_def fresh_service_def new_EmailService_def
      throwing_queue_def added_Cons lit_def)

section \<open>Fetching one message\<close>


lemma find_value_first_header: "find_value nm hs = first_header nm hs"
  by (induction hs) (simp_all add: find_value_def)



text \<open>
  Claim C2, as the code has it. When the provider answers with a message that has a header
  list, \<open>getEmailData\<close> resolves to the record whose subject is the value of the first
  header named exactly "Subject" when that value is present and not empty, and
  "No Subject" otherwise; whose from and to are the values of the first headers named
  exactly "From" and "To", and \<open>""\<close> when there is none; and whose body is the snippet,
  \<open>""\<close> when absent. Names are compared as they are written, so case matters.
\<close>

theorem getEmailData_fields:
  assumes "gmailClient this = Some gmail"
    and "messages_get gmail (lit ''me'') messageId tr = Inr email"
    and "payload email = Some part"
    and "headers part = Some hs"
  shows "\<exists>d. getEmailData this messageId tr =
               (Inr (Some d), tr @ [Call (Messages_get (lit ''me'') messageId) None]) \<and>
     subject d = (case first_header (lit ''Subject'') hs of
                    None \<Rightarrow> lit ''No Subject''
                  | Some X \<Rightarrow> if X = lit '''' then lit ''No Subject'' else X) \<and>
     from_addr d = (case first_header (lit ''From'') hs of None \<Rightarrow> lit '''' | Some a \<Rightarrow> a) \<and>
     to_addr d = (case first_header (lit ''To'') hs of None \<Rightarrow> lit '''' | Some b \<Rightarrow> b) \<and>
     emailContent d = (case snippet email of None \<Rightarrow> lit '''' | Some s \<Rightarrow> s)"
  using assms
  by (simp add: getEmailData_def promise_defs find_value_first_header or_else_def lit_def
      split: option.splits)

text \<open>The example of the spec: the headers Subject "X", From "a" and To "b".\<close>

theorem getEmailData_fields_witness:
  "getEmailData
     (example_service None (mail (lit ''X'') (lit ''a'') (lit ''b'') (lit ''hi''))
        (throwing_openai (Error (lit ''down''))))
     (lit ''m1'') [] =
     (Inr (Some \<lparr>from_addr = lit ''a'', to_addr = lit ''b'', subject = lit ''X'',
                 emailContent = lit ''hi''\<rparr>),
      [Call (Messages_get (lit ''me'') (lit ''m1'')) None])"
proof -
  let ?email = "mail (lit ''X'') (lit ''a'') (lit ''b'') (lit ''hi'')"
  let ?gmail = "answering_gmail None ?email"
  let ?svc = "example_service None ?email (throwing_openai (Error (lit ''down'')))"
  let ?hs = "[\<lparr>header_name = Some (lit ''Subject''), header_value = Some (lit ''X'')\<rparr>,
         \<lparr>header_name = Some (lit ''From''), header_value = Some (lit ''a'')\<rparr>,
         \<lparr>header_name = Some (lit ''To''), header_value = Some (lit ''b'')\<rparr>]"
  have 1: "gmailClient ?svc = Some ?gmail"
    by (simp add: example_service_def)
  have 2: "messages_get ?gmail (lit ''me'') (lit ''m1'') [] = Inr ?email"
    by (simp add: answering_gmail_def)
  have 3: "payload ?email = Some \<lparr>headers = Some ?hs\<rparr>"
    by (simp add: mail_def)
  have 4: "headers \<lparr>headers = Some ?hs\<rparr> = Some ?hs"
    by simp
  from getEmailData_fields [OF 1 2 3 4] show ?thesis
    by (auto simp: lit_def mail_def)
qed

text \<open>
  The claim as the spec words it fails for a header \<^verbatim>\<open>{name: "Subject", value: ""}\<close>: the
  empty string is falsy, so the subject becomes "No Subject" and not the header's value.
\<close>

theorem getEmailData_empty_subject:
  "fst (getEmailData
     (example_service None (mail (lit '''') (lit ''a'') (lit ''b'') (lit ''hi''))
        (throwing_openai (Error (lit ''down''))))
     (lit ''m1'') []) =
     Inr (Some \<lparr>from_addr = lit ''a'', to_addr = lit ''b'', subject = lit ''No Subject'',
                emailContent = lit ''hi''\<rparr>)
   \<and> lit ''No Subject'' \<noteq> lit ''''"
  by (simp add: getEmailData_def promise_defs example_service_def answering_gmail_def mail_def
      find_value_def or_else_def lit_def)

section \<open>Failures are logged, not raised\<close>

lemma swallows_settles: "settles m S \<Longrightarrow> swallows m"
  unfolding settles_def swallows_def by (meson no_retry_distinct)

lemma swallows_checkUnreadEmails: "swallows (checkUnreadEmails this)"
  unfolding swallows_def
proof
  fix tr
  from checkUnreadEmails_cases [of this tr]
  show "\<exists>v new. checkUnreadEmails this tr = (Inr v, tr @ new) \<and> failures_logged new \<and>
          no_retry new"
  proof (elim disjE exE conjE)
    assume "checkUnreadEmails this tr = (Inr (), tr)"
    then have "checkUnreadEmails this tr = (Inr (), tr @ []) \<and> failures_logged [] \<and> no_retry []"
      by simp
    then show ?thesis by blast
  next
    fix e
    let ?new = "[Call (Messages_list (lit ''me'') (lit ''is:unread'')) (Some e),
                     Logged ERROR [JString (lit ''Error checking unread emails:''),
                                   JString (message e)]]"
    assume "checkUnreadEmails this tr = (Inr (), tr @ ?new)"
    moreover have "failures_logged ?new" "no_retry ?new"
      by (simp_all add: sites_simps)
    ultimately show ?thesis by blast
  next
    fix ms
    let ?new = "Call (Messages_list (lit ''me'') (lit ''is:unread'')) None
                 # map (\<lambda>m. Call (process_job m) None) ms"
    assume "checkUnreadEmails this tr = (Inr (), tr @ ?new)"
    moreover have "failures_logged ?new" "no_retry ?new"
      using failures_logged_answered [of process_job ms "[]"]
        no_retry_answered [of process_job ms "[]"]
      by simp_all
    ultimately show ?thesis by blast
  next
    fix ms m e
    let ?new = "Call (Messages_list (lit ''me'') (lit ''is:unread'')) None
                 # map (\<lambda>m. Call (process_job m) None) ms
                 @ [Call (process_job m) (Some e),
                    Logged ERROR [JString (lit ''Error checking unread emails:''),
                                  JString (message e)]]"
    assume "checkUnreadEmails this tr = (Inr (), tr @ ?new)"
    moreover have "failures_logged ?new" "no_retry ?new"
      by (simp_all add: failures_logged_answered no_retry_answered sites_simps)
    ultimately show ?thesis by blast
  qed
qed

text \<open>
  Claim C8. Each of \<open>checkUnreadEmails\<close>, \<open>getEmailData\<close>, \<open>processIncomingEmail\<close> and the
  send, label and mark-read steps inside it swallows failures, for every state of the
  service (bound or not, any queue, any injected classifier), every argument and every
  history: the call resolves and never rejects, every collaborator call that threw is
  followed at once by a logged error carrying its message, and after a call that threw
  nothing is sent from the same place again, so nothing is retried.
\<close>

theorem failures_are_swallowed:
  "swallows (checkUnreadEmails this) \<and>
   swallows (getEmailData this messageId) \<and>
   swallows (processIncomingEmail this messageId emailData) \<and>
   swallows (sendReplyEmail this messageId reply) \<and>
   swallows (assignLabelToEmail this messageId labelId) \<and>
   swallows (markEmailAsRead this messageId)"
  by (intro conjI swallows_checkUnreadEmails
      swallows_settles [OF settles_getEmailData]
      swallows_settles [OF settles_processIncomingEmail]
      swallows_settles [OF settles_sendReplyEmail]
      swallows_settles [OF settles_assignLabelToEmail]
      swallows_settles [OF settles_markEmailAsRead])

text \<open>
  The property is not an empty one: \<open>scheduleEmailChecking\<close>, which has no \<^verbatim>\<open>try\<close> block,
  rejects when the queue refuses the job.
\<close>

lemma scheduleEmailChecking_rejects:
  "\<not> swallows (scheduleEmailChecking (fresh_service (Error (lit ''down''))))"
proof
  assume "swallows (scheduleEmailChecking (fresh_service (Error (lit ''down''))))"
  then obtain v new where
    "scheduleEmailChecking (fresh_service (Error (lit ''down''))) [] = (Inr v, [] @ new)"
    unfolding swallows_def by blast
  then show False
    by (simp add: scheduleEmailChecking_def call_def fresh_service_def new_EmailService_def
        throwing_queue_def)
qed

text \<open>A mail provider that throws on the listing: the error is logged and the call resolves.\<close>

theorem failures_are_swallowed_witness:
  "swallows (checkUnreadEmails
      (offline_service (Error (lit ''down'')) (throwing_openai (Error (lit ''down''))))) \<and>
   checkUnreadEmails
      (offline_service (Error (lit ''down'')) (throwing_openai (Error (lit ''down'')))) [] =
     (Inr (),
      [Call (Messages_list (lit ''me'') (lit ''is:unread'')) (Some (Error (lit ''down''))),
       Logged ERROR [JString (lit ''Error checking unread emails:''), JString (lit ''down'')]])"
  using failures_are_swallowed
    [of "offline_service (Error (lit ''down'')) (throwing_openai (Error (lit ''down'')))"]
  by (simp add: checkUnreadEmails_def promise_defs offline_service_def throwing_gmail_def)

section \<open>Processing one message\<close>

lemma resolving_caught: "resolving (caught f)"
  by (auto simp: resolving_def caught_def split: sum.splits)

lemma resolving_spec_OpenaiService:
  "resolving (analyzeEmailContext (spec_OpenaiService provider))"
  "resolving (categorizeEmailContent (spec_OpenaiService provider))"
  "resolving (generateEmailReply (spec_OpenaiService provider))"
  by (simp_all add: spec_OpenaiService_def resolving_caught)

lemma label_never_unread:
  "or_null (labelMapping_get category) \<noteq> JString (lit ''UNREAD'')"
  by (simp add: or_null_def labelMapping_get_def labelMapping_def Object_prototype_def lit_def
      Let_def)

text \<open>
  Claim C3, with the classifier service as the spec describes it. When a session is bound,
  \<open>processIncomingEmail\<close> resolves and sends, in this order and whatever fails: analyze,
  categorize, the label assignment when the lookup of the category is truthy,
  generate-reply, the reply, and mark-as-read. Every call that threw is logged at once,
  and the steps after it still run. The category and the reply body are what the text
  provider answered at that moment, and \<open>undefined\<close> when it failed: the reply is then
  built and sent with an undefined body. Nothing undoes the label: no request removes the
  label that was added.
\<close>

theorem processIncomingEmail_continues:
  assumes "gmailClient this = Some gmail"
    and "openaiService this = spec_OpenaiService provider"
  shows "\<exists>pre post category replyContent.
     processIncomingEmail this messageId emailData tr =
       (Inr (), tr @ pre @ Call (GenerateEmailReply (emailContent emailData)) None # post) \<and>
     failures_logged (pre @ Call (GenerateEmailReply (emailContent emailData)) None # post) \<and>
     category = (case categorize provider (emailContent emailData) (tr @ take 2 pre) of
                   Inl e \<Rightarrow> None | Inr answer \<Rightarrow> Some answer) \<and>
     requests pre =
       [AnalyzeEmailContext (emailContent emailData), CategorizeEmailContent (emailContent emailData)]
       @ (if truthy (or_null (labelMapping_get category))
          then [Messages_modify (lit ''me'') messageId (AddLabelIds [or_null (labelMapping_get category)])]
          else []) \<and>
     replyContent = (case generateReply provider (emailContent emailData) (tr @ pre) of
                       Inl e \<Rightarrow> None | Inr answer \<Rightarrow> Some answer) \<and>
     requests post =
       [Messages_send (lit ''me'')
          (createReplyMessage (to_addr emailData) (from_addr emailData) (subject emailData)
             replyContent messageId),
        Messages_modify (lit ''me'') messageId (RemoveLabelIds [JString (lit ''UNREAD'')])] \<and>
     Messages_modify (lit ''me'') messageId (RemoveLabelIds [or_null (labelMapping_get category)])
       \<notin> set (requests (pre @ Call (GenerateEmailReply (emailContent emailData)) None # post))"
proof -
  let ?text = "emailContent emailData"
  from processIncomingEmail_run [OF assms(1), of messageId emailData tr]
    resolving_spec_OpenaiService [of provider] assms(2)
  obtain pre post category replyContent where run:
    "processIncomingEmail this messageId emailData tr =
       (Inr (), tr @ pre @ Call (GenerateEmailReply ?text) None # post)"
    "categorizeEmailContent (openaiService this) ?text (tr @ take 2 pre) = Inr category"
    "generateEmailReply (openaiService this) ?text (tr @ pre) = Inr replyContent"
    "requests pre =
       [AnalyzeEmailContext ?text, CategorizeEmailContent ?text]
       @ (if truthy (or_null (labelMapping_get category))
          then [Messages_modify (lit ''me'') messageId (AddLabelIds [or_null (labelMapping_get category)])]
          else [])"
    "requests post =
       [Messages_send (lit ''me'')
          (createReplyMessage (to_addr emailData) (from_addr emailData) (subject emailData)
             replyContent messageId),
        Messages_modify (lit ''me'') messageId (RemoveLabelIds [JString (lit ''UNREAD'')])]"
    by auto
  let ?new = "pre @ Call (GenerateEmailReply ?text) None # post"
  from settles_processIncomingEmail [of this messageId emailData]
  obtain v new' where "processIncomingEmail this messageId emailData tr = (Inr v, tr @ new')"
    "failures_logged new'"
    unfolding settles_def by blast
  with run(1) have logged: "failures_logged ?new" by simp
  from run(2) assms(2)
  have cat: "category = (case categorize provider ?text (tr @ take 2 pre) of
                   Inl e \<Rightarrow> None | Inr answer \<Rightarrow> Some answer)"
    by (simp add: spec_OpenaiService_def caught_def split: sum.splits)
  from run(3) assms(2)
  have reply: "replyContent = (case generateReply provider ?text (tr @ pre) of
                       Inl e \<Rightarrow> None | Inr answer \<Rightarrow> Some answer)"
    by (simp add: spec_OpenaiService_def caught_def split: sum.splits)
  have kept: "Messages_modify (lit ''me'') messageId
       (RemoveLabelIds [or_null (labelMapping_get category)]) \<notin> set (requests ?new)"
    using label_never_unread [of category] by (auto simp: requests_append run(4,5))
  from run(1) logged cat run(4) reply run(5) kept show ?thesis by blast
qed

text \<open>
  A mail provider that throws on every request and a text provider that fails to generate
  the reply: the label assignment fails and is logged, the reply is generated as
  \<open>undefined\<close>, sent (and fails), and mark-as-read is still requested.
\<close>

theorem processIncomingEmail_continues_witness:
  "processIncomingEmail
     (offline_service (Error (lit ''down''))
        (spec_OpenaiService
           (silent_provider (lit ''ctx'') (lit ''Interested'') (Error (lit ''quota'')))))
     (lit ''m1'')
     \<lparr>from_addr = lit ''a'', to_addr = lit ''b'', subject = lit ''S'', emailContent = lit ''hi''\<rparr>
     [] =
   (Inr (),
    [Call (AnalyzeEmailContext (lit ''hi'')) None,
     Logged LOG [JString (lit ''Email Context:''), JString (lit ''ctx'')],
     Call (CategorizeEmailContent (lit ''hi'')) None,
     Logged LOG [JString (lit ''Email Category:''), JString (lit ''Interested'')],
     Call (Messages_modify (lit ''me'') (lit ''m1'')
             (AddLabelIds [JString (lit ''Label_3035777443514222121'')]))
       (Some (Error (lit ''down''))),
     Logged ERROR [JString (lit ''Error assigning label to email for message ID m1:''),
                   JString (lit ''down'')],
     Call (GenerateEmailReply (lit ''hi'')) None,
     Logged LOG [JString (lit ''Generated Reply:''), JUndefined],
     Call (Messages_send (lit ''me'')
             (createReplyMessage (lit ''b'') (lit ''a'') (lit ''S'') None (lit ''m1'')))
       (Some (Error (lit ''down''))),
     Logged ERROR [JString (lit ''Error sending reply email:''), JString (lit ''down'')],
     Call (Messages_modify (lit ''me'') (lit ''m1'') (RemoveLabelIds [JString (lit ''UNREAD'')]))
       (Some (Error (lit ''down''))),
     Logged ERROR [JString (lit ''Error marking email as read for message ID m1:''),
                   JString (lit ''down'')]])"
proof -
  let ?provider = "silent_provider (lit ''ctx'') (lit ''Interested'') (Error (lit ''quota''))"
  let ?svc = "offline_service (Error (lit ''down'')) (spec_OpenaiService ?provider)"
  have 1: "gmailClient ?svc = Some (throwing_gmail (Error (lit ''down'')))"
    by (simp add: offline_service_def)
  have 2: "openaiService ?svc = spec_OpenaiService ?provider"
    by (simp add: offline_service_def)
  from processIncomingEmail_continues [OF 1 2, of "lit ''m1''"
      "\<lparr>from_addr = lit ''a'', to_addr = lit ''b'', subject = lit ''S'', emailContent = lit ''hi''\<rparr>"
      "[]"]
  show ?thesis
    by (simp add: service_defs example_defs spec_defs promise_defs Let_def lit_def)
qed

text \<open>
  The label lookup. "Interested" resolves to its label, and a category that is a property
  neither of \<open>labelMapping\<close> nor of \<^verbatim>\<open>Object.prototype\<close> resolves to nothing: the step
  only logs a warning.
\<close>

lemma label_lookup_Interested:
  "labelMapping_get (Some (lit ''Interested'')) = JString (lit ''Label_3035777443514222121'')"
  by (simp add: labelMapping_get_def labelMapping_def optional_def lit_def)

lemma label_lookup_unmapped:
  assumes "map_of labelMapping category = None" and "map_of Object_prototype category = None"
  shows "\<not> truthy (or_null (labelMapping_get (Some category)))"
  using assms by (simp add: labelMapping_get_def optional_def or_null_def)

lemma label_step_unmapped:
  assumes "map_of labelMapping category = None" and "map_of Object_prototype category = None"
  shows "(let labelId = or_null (labelMapping_get (Some category))
          in if truthy labelId then assignLabelToEmail this messageId labelId
             else logger WARN [JString (lit ''No label found for category: ''
                                        @ template (optional (Some category)))]) tr
         = (Inr (), tr @ [Logged WARN [JString (lit ''No label found for category: '' @ category)]])"
  using label_lookup_unmapped [OF assms]
  by (simp add: Let_def logger_def optional_def)

text \<open>
  Claim C4 at the category "constructor", which is not in the label mapping. The lookup
  \<^verbatim>\<open>this.labelMapping[category]\<close> finds the property inherited from
  \<^verbatim>\<open>Object.prototype\<close>, a function and so truthy: the service requests a label
  modification whose label id is that function, and logs no warning.
\<close>

theorem label_lookup_inherited:
  "processIncomingEmail
     (example_service None (unread_message (lit ''m1''))
        (answering_openai (Some (lit ''ctx'')) (Some (lit ''constructor'')) (Some (lit ''Thanks''))))
     (lit ''m1'')
     \<lparr>from_addr = lit ''a'', to_addr = lit ''b'', subject = lit ''S'', emailContent = lit ''hi''\<rparr>
     [] =
   (Inr (),
    [Call (AnalyzeEmailContext (lit ''hi'')) None,
     Logged LOG [JString (lit ''Email Context:''), JString (lit ''ctx'')],
     Call (CategorizeEmailContent (lit ''hi'')) None,
     Logged LOG [JString (lit ''Email Category:''), JString (lit ''constructor'')],
     Call (Messages_modify (lit ''me'') (lit ''m1'') (AddLabelIds [JFunction (lit ''Object'')])) None,
     Logged LOG [JString (lit ''Label function Object() { [native code] } assigned to email: m1'')],
     Call (GenerateEmailReply (lit ''hi'')) None,
     Logged LOG [JString (lit ''Generated Reply:''), JString (lit ''Thanks'')],
     Call (Messages_send (lit ''me'')
             (createReplyMessage (lit ''b'') (lit ''a'') (lit ''S'') (Some (lit ''Thanks''))
                (lit ''m1''))) None,
     Logged LOG [JString (lit ''Reply sent to: a, message ID: r1'')],
     Call (Messages_modify (lit ''me'') (lit ''m1'') (RemoveLabelIds [JString (lit ''UNREAD'')]))
       None,
     Logged LOG [JString (lit ''Email marked as read: m1'')]])
   \<and> map_of labelMapping (lit ''constructor'') = None"
  by (simp add: service_defs example_defs promise_defs Let_def lit_def)

text \<open>
  Claim C10. Whatever \<open>processIncomingEmail\<close> sends as a reply decodes to a block whose
  "From:" line holds the \<open>to\<close> field of the Email Record and whose "To:" line holds its
  \<open>from\<close> field: the reply goes back to the original sender. And a reply is sent whenever
  a session is bound and the classifier's three methods resolve.
\<close>

theorem reply_goes_back_to_sender:
  "\<exists>r new. processIncomingEmail this messageId emailData tr = (r, tr @ new) \<and>
     list_all
       (\<lambda>rq. case rq of
          Messages_send userId raw \<Rightarrow>
            (\<exists>text. base64url_decode raw =
               Some (Buffer_from (lit ''From: '' @ to_addr emailData @ [0x0A]
                 @ lit ''To: '' @ from_addr emailData @ [0x0A]
                 @ lit ''Subject: Re: '' @ subject emailData @ [0x0A]
                 @ lit ''In-Reply-To: '' @ messageId @ [0x0A]
                 @ lit ''References: '' @ messageId @ [0x0A] @ [0x0A] @ text)))
        | _ \<Rightarrow> True)
       (requests new) \<and>
     (gmailClient this \<noteq> None \<and>
      resolving (analyzeEmailContext (openaiService this)) \<and>
      resolving (categorizeEmailContent (openaiService this)) \<and>
      resolving (generateEmailReply (openaiService this)) \<longrightarrow>
        (\<exists>raw. Messages_send (lit ''me'') raw \<in> set (requests new)))"
proof -
  let ?P = "\<lambda>rq. case rq of
          Messages_send userId raw \<Rightarrow>
            (\<exists>text. base64url_decode raw =
               Some (Buffer_from (lit ''From: '' @ to_addr emailData @ [0x0A]
                 @ lit ''To: '' @ from_addr emailData @ [0x0A]
                 @ lit ''Subject: Re: '' @ subject emailData @ [0x0A]
                 @ lit ''In-Reply-To: '' @ messageId @ [0x0A]
                 @ lit ''References: '' @ messageId @ [0x0A] @ [0x0A] @ text)))
        | _ \<Rightarrow> True"
  have "sends_only (processIncomingEmail this messageId emailData) ?P"
  proof (rule sends_only_processIncomingEmail)
    fix reply
    have "base64url_decode
        (createReplyMessage (to_addr emailData) (from_addr emailData) (subject emailData)
           reply messageId) =
        Some (Buffer_from (lit ''From: '' @ to_addr emailData @ [0x0A]
                 @ lit ''To: '' @ from_addr emailData @ [0x0A]
                 @ lit ''Subject: Re: '' @ subject emailData @ [0x0A]
                 @ lit ''In-Reply-To: '' @ messageId @ [0x0A]
                 @ lit ''References: '' @ messageId @ [0x0A] @ [0x0A]
                 @ (case reply of None \<Rightarrow> [] | Some s \<Rightarrow> s)))"
      by (simp only: createReplyMessage_base64url base64url_decode_base64url)
    then have "\<exists>text. base64url_decode
        (createReplyMessage (to_addr emailData) (from_addr emailData) (subject emailData)
           reply messageId) =
        Some (Buffer_from (lit ''From: '' @ to_addr emailData @ [0x0A]
                 @ lit ''To: '' @ from_addr emailData @ [0x0A]
                 @ lit ''Subject: Re: '' @ subject emailData @ [0x0A]
                 @ lit ''In-Reply-To: '' @ messageId @ [0x0A]
                 @ lit ''References: '' @ messageId @ [0x0A] @ [0x0A] @ text))"
      by (rule exI)
    then show "?P (Messages_send (lit ''me'')
        (createReplyMessage (to_addr emailData) (from_addr emailData) (subject emailData)
           reply messageId))"
      by (simp only: request.case)
  qed simp_all
  then obtain r new where run: "processIncomingEmail this messageId emailData tr = (r, tr @ new)"
    "list_all ?P (requests new)"
    unfolding sends_only_def by blast
  have "\<exists>raw. Messages_send (lit ''me'') raw \<in> set (requests new)"
    if "gmailClient this \<noteq> None"
      and "resolving (analyzeEmailContext (openaiService this))"
      and "resolving (categorizeEmailContent (openaiService this))"
      and "resolving (generateEmailReply (openaiService this))"
  proof -
    from that(1) obtain gmail where "gmailClient this = Some gmail" by blast
    from processIncomingEmail_run [OF this that(2,3,4), of messageId emailData tr]
    obtain pre post replyContent where ran:
      "processIncomingEmail this messageId emailData tr =
         (Inr (), tr @ pre @ Call (GenerateEmailReply (emailContent emailData)) None # post)"
      "requests post =
         [Messages_send (lit ''me'')
            (createReplyMessage (to_addr emailData) (from_addr emailData) (subject emailData)
               replyContent messageId),
          Messages_modify (lit ''me'') messageId (RemoveLabelIds [JString (lit ''UNREAD'')])]"
      by blast
    from run(1) ran(1)
    have "new = pre @ Call (GenerateEmailReply (emailContent emailData)) None # post"
      by simp
    with ran(2) show ?thesis
      by (auto simp: requests_append)
  qed
  with run show ?thesis by blast
qed

text \<open>A message from "a" to "b": the reply sent reads "From: b", "To: a".\<close>

theorem reply_goes_back_to_sender_witness:
  "requests (snd (processIncomingEmail
     (example_service None (unread_message (lit ''m1''))
        (answering_openai (Some (lit ''ctx'')) (Some (lit ''Interested'')) (Some (lit ''Thanks''))))
     (lit ''m1'')
     \<lparr>from_addr = lit ''a'', to_addr = lit ''b'', subject = lit ''S'', emailContent = lit ''hi''\<rparr>
     [])) =
   [AnalyzeEmailContext (lit ''hi''), CategorizeEmailContent (lit ''hi''),
    Messages_modify (lit ''me'') (lit ''m1'')
      (AddLabelIds [JString (lit ''Label_3035777443514222121'')]),
    GenerateEmailReply (lit ''hi''),
    Messages_send (lit ''me'')
      (createReplyMessage (lit ''b'') (lit ''a'') (lit ''S'') (Some (lit ''Thanks'')) (lit ''m1'')),
    Messages_modify (lit ''me'') (lit ''m1'') (RemoveLabelIds [JString (lit ''UNREAD'')])]
   \<and> base64url_decode
        (createReplyMessage (lit ''b'') (lit ''a'') (lit ''S'') (Some (lit ''Thanks'')) (lit ''m1'')) =
      Some (Buffer_from (lit ''From: b'' @ [0x0A] @ lit ''To: a'' @ [0x0A] @ lit ''Subject: Re: S''
        @ [0x0A] @ lit ''In-Reply-To: m1'' @ [0x0A] @ lit ''References: m1'' @ [0x0A] @ [0x0A]
        @ lit ''Thanks''))"
proof -
  have "base64url_decode
        (createReplyMessage (lit ''b'') (lit ''a'') (lit ''S'') (Some (lit ''Thanks'')) (lit ''m1'')) =
      Some (Buffer_from (lit ''From: b'' @ [0x0A] @ lit ''To: a'' @ [0x0A] @ lit ''Subject: Re: S''
        @ [0x0A] @ lit ''In-Reply-To: m1'' @ [0x0A] @ lit ''References: m1'' @ [0x0A] @ [0x0A]
        @ lit ''Thanks''))"
    by (simp only: createReplyMessage_base64url base64url_decode_base64url) (simp add: lit_def)
  with reply_goes_back_to_sender
    [of "example_service None (unread_message (lit ''m1''))
           (answering_openai (Some (lit ''ctx'')) (Some (lit ''Interested'')) (Some (lit ''Thanks'')))"
        "lit ''m1''"
        "\<lparr>from_addr = lit ''a'', to_addr = lit ''b'', subject = lit ''S'', emailContent = lit ''hi''\<rparr>"
        "[]"]
  show ?thesis
    by (simp add: service_defs example_defs promise_defs Let_def lit_def)
qed

end
